theory Spec2Isabelle
  imports Complex_Main "HOL-Library.Word"
begin

unbundle bit_operations_syntax

section \<open>Coordinates and their algebraic notation (chess/position.go)\<close>

text \<open>
  \<^verbatim>\<open>type Position struct { Row int; Col int }\<close>. Go's \<^verbatim>\<open>int\<close> is modelled as
  \<^typ>\<open>int\<close>: every position that reaches a square of the board has passed
  \<^verbatim>\<open>IsValid\<close>, so rows and columns stay in \<open>0..7\<close> and no computation on them
  comes near the 64-bit range.
\<close>

record Position =
  Row :: int
  Col :: int

definition NewPosition :: "int \<Rightarrow> int \<Rightarrow> Position" where
  "NewPosition row col = \<lparr>Row = row, Col = col\<rparr>"

definition IsValid :: "Position \<Rightarrow> bool" where
  "IsValid p = (Row p \<ge> 0 \<and> Row p < 8 \<and> Col p \<ge> 0 \<and> Col p < 8)"

text \<open>
  \<^verbatim>\<open>Position.String\<close>: the text \<^verbatim>\<open>invalid\<close> off the board, otherwise the file
  letter \<^verbatim>\<open>'a' + Col\<close> followed by \<^verbatim>\<open>8 - Row\<close> printed with \<^verbatim>\<open>%d\<close>. In the
  valid branch \<^verbatim>\<open>8 - Row\<close> lies in \<open>1..8\<close>, so \<^verbatim>\<open>%d\<close> prints the one digit
  \<^verbatim>\<open>'0' + (8 - Row)\<close>. A Go string is a sequence of bytes, as \<^typ>\<open>string\<close> is.
\<close>

definition String :: "Position \<Rightarrow> string" where
  "String p =
     (if \<not> IsValid p then ''invalid''
      else [char_of (97 + Col p), char_of (48 + (8 - Row p))])"

text \<open>
  The errors of the package, as values. \<^verbatim>\<open>FromAlgebraic\<close> has two
  (\<^verbatim>\<open>invalid notation: %s\<close>, \<^verbatim>\<open>invalid position: %s\<close>); \<^verbatim>\<open>Game.MakeMove\<close> wraps them
  (\<^verbatim>\<open>invalid from position: %v\<close>, \<^verbatim>\<open>invalid to position: %v\<close>) or reports
  \<^verbatim>\<open>invalid move\<close>.
\<close>

datatype error =
    InvalidNotation string
  | InvalidPositionErr string
  | InvalidFromPosition error
  | InvalidToPosition error
  | InvalidMove

text \<open>
  \<^verbatim>\<open>notation[0] - 'a'\<close> and \<^verbatim>\<open>notation[1] - '0'\<close> are subtractions on \<^verbatim>\<open>byte\<close>:
  they wrap around modulo 256 before \<^verbatim>\<open>int(...)\<close> widens the result.
\<close>

definition byte :: "char \<Rightarrow> 8 word" where
  "byte c = word_of_nat (of_char c)"

definition FromAlgebraic :: "string \<Rightarrow> error + Position" where
  "FromAlgebraic notation =
     (if length notation \<noteq> 2 then Inl (InvalidNotation notation)
      else
        let col = uint (byte (notation ! 0) - byte CHR ''a'');
            row = 8 - uint (byte (notation ! 1) - byte CHR ''0'');
            pos = \<lparr>Row = row, Col = col\<rparr>
        in if \<not> IsValid pos then Inl (InvalidPositionErr notation) else Inr pos)"

text \<open>
  The decoded column and row as the specification words them, on unbounded integers:
  the first character minus \<^verbatim>\<open>'a'\<close>, and 8 minus the digit value of the second.
\<close>

definition decodedCol :: "string \<Rightarrow> int" where
  "decodedCol s = of_char (s ! 0) - 97"

definition decodedRow :: "string \<Rightarrow> int" where
  "decodedRow s = 8 - (of_char (s ! 1) - 48)"

section \<open>Pieces (chess/piece.go)\<close>

text \<open>
  \<^verbatim>\<open>Color\<close> and \<^verbatim>\<open>PieceType\<close> are Go enumerations (\<^verbatim>\<open>iota\<close>): two colours and six
  kinds. \<open>colorCode\<close> and \<open>pieceTypeCode\<close> give the integer behind each name, which
  the position hash reads.
\<close>

datatype Color = White | Black

datatype PieceType = King | Queen | Rook | Bishop | Knight | Pawn

fun colorCode :: "Color \<Rightarrow> nat" where
  "colorCode White = 0"
| "colorCode Black = 1"

fun pieceTypeCode :: "PieceType \<Rightarrow> nat" where
  "pieceTypeCode King = 0"
| "pieceTypeCode Queen = 1"
| "pieceTypeCode Rook = 2"
| "pieceTypeCode Bishop = 3"
| "pieceTypeCode Knight = 4"
| "pieceTypeCode Pawn = 5"

record Piece =
  Type :: PieceType
  Color :: Color
  HasMoved :: bool

section \<open>The store\<close>

text \<open>
  The program works on pointers: a square holds a \<^verbatim>\<open>*Piece\<close>, a game holds a
  \<^verbatim>\<open>*Board\<close>, and the search receives a \<^verbatim>\<open>*Game\<close>. \<^verbatim>\<open>MovePiece\<close> writes
  \<^verbatim>\<open>HasMoved\<close> through the piece pointer, and \<^verbatim>\<open>copyGame\<close> allocates new objects.
  The store keeps the three kinds of object in three lists; a pointer is an index, a
  \<^verbatim>\<open>nil\<close> piece pointer is \<open>None\<close>, and \<^verbatim>\<open>&T{...}\<close> appends a new object.
\<close>

record Move =
  From :: Position
  To :: Position

definition NewMove :: "Position \<Rightarrow> Position \<Rightarrow> Move" where
  "NewMove from to = \<lparr>From = from, To = to\<rparr>"

text \<open>\<^verbatim>\<open>type Board struct { squares [8][8]*Piece }\<close>: the array as a function of (row, column).\<close>

record Board =
  squares :: "int \<times> int \<Rightarrow> nat option"

datatype GameState = Playing | Check | Checkmate | Stalemate | Draw

record Game =
  Board :: nat
  CurrentPlayer :: Color
  State :: GameState
  MoveHistory :: "Move list"

record heap =
  pieces :: "Piece list"
  boards :: "Board list"
  games :: "Game list"

text \<open>\<^verbatim>\<open>NewPiece\<close>: a new piece object that has not moved.\<close>

definition NewPiece :: "heap \<Rightarrow> PieceType \<Rightarrow> Color \<Rightarrow> nat \<times> heap" where
  "NewPiece h pieceType color =
     (length (pieces h),
      h\<lparr>pieces := pieces h @ [\<lparr>Type = pieceType, Color = color, HasMoved = False\<rparr>]\<rparr>)"

section \<open>The board (board.go)\<close>

text \<open>The assignment \<^verbatim>\<open>b.squares[i][j] = p\<close>.\<close>

definition setSquare :: "heap \<Rightarrow> nat \<Rightarrow> int \<Rightarrow> int \<Rightarrow> nat option \<Rightarrow> heap" where
  "setSquare h b i j p =
     h\<lparr>boards := (boards h)[b := (boards h ! b)\<lparr>squares := (squares (boards h ! b))((i, j) := p)\<rparr>]\<rparr>"

definition GetPiece :: "heap \<Rightarrow> nat \<Rightarrow> Position \<Rightarrow> nat option" where
  "GetPiece h b pos =
     (if \<not> IsValid pos then None else squares (boards h ! b) (Row pos, Col pos))"

definition SetPiece :: "heap \<Rightarrow> nat \<Rightarrow> Position \<Rightarrow> nat option \<Rightarrow> heap" where
  "SetPiece h b pos piece =
     (if IsValid pos then setSquare h b (Row pos) (Col pos) piece else h)"

text \<open>
  \<^verbatim>\<open>MovePiece\<close>: the pointer is stored at \<^verbatim>\<open>to\<close>, \<^verbatim>\<open>from\<close> is set to \<^verbatim>\<open>nil\<close>, and
  \<^verbatim>\<open>piece.HasMoved = true\<close> is written through the pointer.
\<close>

definition MovePiece :: "heap \<Rightarrow> nat \<Rightarrow> Position \<Rightarrow> Position \<Rightarrow> bool \<times> heap" where
  "MovePiece h b from to =
     (if \<not> IsValid from \<or> \<not> IsValid to then (False, h)
      else case GetPiece h b from of
        None \<Rightarrow> (False, h)
      | Some piece \<Rightarrow>
          let h1 = SetPiece h b to (Some piece);
              h2 = SetPiece h1 b from None;
              h3 = h2\<lparr>pieces := (pieces h2)[piece := (pieces h2 ! piece)\<lparr>HasMoved := True\<rparr>]\<rparr>
          in (True, h3))"

text \<open>The 64 squares in the order of the loops \<^verbatim>\<open>for row ... { for col ... } }\<close>.\<close>

definition allPositions :: "Position list" where
  "allPositions = concat (map (\<lambda>row. map (\<lambda>col. NewPosition row col) [0..7]) [0..7])"

text \<open>
  \<^verbatim>\<open>setupInitialPosition\<close>: every square is cleared, then the 32 pieces are created
  and stored in the order of the source.
\<close>

definition place :: "int \<Rightarrow> int \<Rightarrow> PieceType \<Rightarrow> Color \<Rightarrow> nat \<Rightarrow> heap \<Rightarrow> heap" where
  "place i j pieceType color b h =
     (let (piece, h1) = NewPiece h pieceType color in setSquare h1 b i j (Some piece))"

definition backRank :: "PieceType list" where
  "backRank = [Rook, Knight, Bishop, Queen, King, Bishop, Knight, Rook]"

definition setupInitialPosition :: "heap \<Rightarrow> nat \<Rightarrow> heap" where
  "setupInitialPosition h b =
     (let h1 = fold (\<lambda>pos h. setSquare h b (Row pos) (Col pos) None) allPositions h;
          h2 = fold (\<lambda>(j, t) h. place 7 j t White b h) (zip [0..7] backRank) h1;
          h3 = fold (\<lambda>i h. place 6 i Pawn White b h) [0..7] h2;
          h4 = fold (\<lambda>(j, t) h. place 0 j t Black b h) (zip [0..7] backRank) h3;
          h5 = fold (\<lambda>i h. place 1 i Pawn Black b h) [0..7] h4
      in h5)"

definition NewBoard :: "heap \<Rightarrow> nat \<times> heap" where
  "NewBoard h =
     (let board = length (boards h);
          h1 = h\<lparr>boards := boards h @ [\<lparr>squares = (\<lambda>_. None)\<rparr>]\<rparr>
      in (board, setupInitialPosition h1 board))"

section \<open>Move legality (chess/moves.go)\<close>

text \<open>
  \<^verbatim>\<open>isValidPawnMove\<close>. \<^verbatim>\<open>math.Abs(float64(colDiff)) == 1\<close> converts a small integer
  exactly, so it is \<open>\<bar>colDiff\<bar> = 1\<close>. The piece is passed as a pointer and only its
  colour is read. \<open>diagonalCapture\<close> is the code after the \<^verbatim>\<open>if colDiff == 0\<close> block,
  reached when that block does not return.
\<close>

definition isValidPawnMove :: "heap \<Rightarrow> nat \<Rightarrow> Move \<Rightarrow> nat \<Rightarrow> bool" where
  "isValidPawnMove h b move piece =
     (let rowDiff = Row (To move) - Row (From move);
          colDiff = Col (To move) - Col (From move);
          direction = (if Color (pieces h ! piece) = Black then 1 else - 1);
          startRow = (if Color (pieces h ! piece) = Black then 1 else 6);
          diagonalCapture =
            (if \<bar>colDiff\<bar> = 1 \<and> rowDiff = direction then
               (case GetPiece h b (To move) of
                  None \<Rightarrow> False
                | Some destPiece \<Rightarrow> Color (pieces h ! destPiece) \<noteq> Color (pieces h ! piece))
             else False)
      in
        if colDiff = 0 then
          (if rowDiff = direction then GetPiece h b (To move) = None
           else if rowDiff = 2 * direction \<and> Row (From move) = startRow then
             GetPiece h b (To move) = None
               \<and> GetPiece h b (NewPosition (Row (From move) + direction) (Col (From move))) = None
           else diagonalCapture)
        else diagonalCapture)"

text \<open>
  \<^verbatim>\<open>isPathClear\<close>: the loop \<^verbatim>\<open>for currentRow != to.Row || currentCol != to.Col\<close>
  steps from the square after \<^verbatim>\<open>from\<close> towards \<^verbatim>\<open>to\<close>. It returns only when the
  steps reach \<^verbatim>\<open>to\<close> or meet a piece; not returning is \<open>None\<close>. The loop reads the
  board through \<^verbatim>\<open>b.GetPiece\<close> only, which is its first argument.
\<close>

partial_function (option) pathLoop ::
  "(Position \<Rightarrow> nat option) \<Rightarrow> Position \<Rightarrow> int \<Rightarrow> int \<Rightarrow> int \<Rightarrow> int \<Rightarrow> bool option" where
  "pathLoop getPiece to rowStep colStep currentRow currentCol =
     (if currentRow \<noteq> Row to \<or> currentCol \<noteq> Col to then
        (if getPiece (NewPosition currentRow currentCol) \<noteq> None then Some False
         else pathLoop getPiece to rowStep colStep (currentRow + rowStep) (currentCol + colStep))
      else Some True)"

declare pathLoop.simps [code]

definition isPathClear :: "heap \<Rightarrow> nat \<Rightarrow> Position \<Rightarrow> Position \<Rightarrow> bool option" where
  "isPathClear h b from to =
     (let rowStep = (if Row to > Row from then 1 else if Row to < Row from then - 1 else 0);
          colStep = (if Col to > Col from then 1 else if Col to < Col from then - 1 else 0)
      in pathLoop (GetPiece h b) to rowStep colStep (Row from + rowStep) (Col from + colStep))"

text \<open>
  The rook and the bishop call \<^verbatim>\<open>isPathClear\<close> only along a row, a column or a
  diagonal, where the loop returns (lemmas \<open>isPathClear_straight\<close> and
  \<open>isPathClear_diagonal\<close> below); the \<open>None\<close> branch of \<open>returned\<close> is never taken
  from them.
\<close>

definition returned :: "bool option \<Rightarrow> bool" where
  "returned r = (case r of Some v \<Rightarrow> v | None \<Rightarrow> False)"

definition isValidRookMove :: "heap \<Rightarrow> nat \<Rightarrow> Move \<Rightarrow> bool" where
  "isValidRookMove h b move =
     (if Row (From move) \<noteq> Row (To move) \<and> Col (From move) \<noteq> Col (To move) then False
      else returned (isPathClear h b (From move) (To move)))"

definition isValidKnightMove :: "heap \<Rightarrow> nat \<Rightarrow> Move \<Rightarrow> bool" where
  "isValidKnightMove h b move =
     (let rowDiff = \<bar>Row (To move) - Row (From move)\<bar>;
          colDiff = \<bar>Col (To move) - Col (From move)\<bar>
      in (rowDiff = 2 \<and> colDiff = 1) \<or> (rowDiff = 1 \<and> colDiff = 2))"

definition isValidBishopMove :: "heap \<Rightarrow> nat \<Rightarrow> Move \<Rightarrow> bool" where
  "isValidBishopMove h b move =
     (let rowDiff = \<bar>Row (To move) - Row (From move)\<bar>;
          colDiff = \<bar>Col (To move) - Col (From move)\<bar>
      in if rowDiff \<noteq> colDiff then False
         else returned (isPathClear h b (From move) (To move)))"

definition isValidQueenMove :: "heap \<Rightarrow> nat \<Rightarrow> Move \<Rightarrow> bool" where
  "isValidQueenMove h b move = (isValidRookMove h b move \<or> isValidBishopMove h b move)"

definition isValidKingMove :: "heap \<Rightarrow> nat \<Rightarrow> Move \<Rightarrow> bool" where
  "isValidKingMove h b move =
     (let rowDiff = \<bar>Row (To move) - Row (From move)\<bar>;
          colDiff = \<bar>Col (To move) - Col (From move)\<bar>
      in rowDiff \<le> 1 \<and> colDiff \<le> 1)"

definition IsValidMove :: "heap \<Rightarrow> nat \<Rightarrow> Move \<Rightarrow> Color \<Rightarrow> bool" where
  "IsValidMove h b move currentPlayer =
     (case GetPiece h b (From move) of
        None \<Rightarrow> False
      | Some piece \<Rightarrow>
          if Color (pieces h ! piece) \<noteq> currentPlayer then False
          else if (case GetPiece h b (To move) of
                     None \<Rightarrow> False
                   | Some destPiece \<Rightarrow> Color (pieces h ! destPiece) = Color (pieces h ! piece))
          then False
          else (case Type (pieces h ! piece) of
                  Pawn \<Rightarrow> isValidPawnMove h b move piece
                | Rook \<Rightarrow> isValidRookMove h b move
                | Knight \<Rightarrow> isValidKnightMove h b move
                | Bishop \<Rightarrow> isValidBishopMove h b move
                | Queen \<Rightarrow> isValidQueenMove h b move
                | King \<Rightarrow> isValidKingMove h b move))"

definition GetValidMoves :: "heap \<Rightarrow> nat \<Rightarrow> Position \<Rightarrow> Move list" where
  "GetValidMoves h b pos =
     (case GetPiece h b pos of
        None \<Rightarrow> []
      | Some piece \<Rightarrow>
          filter (\<lambda>move. IsValidMove h b move (Color (pieces h ! piece)))
            (map (\<lambda>to. NewMove pos to) allPositions))"

section \<open>The game (game.go)\<close>

definition setState :: "heap \<Rightarrow> nat \<Rightarrow> GameState \<Rightarrow> heap" where
  "setState h g s = h\<lparr>games := (games h)[g := (games h ! g)\<lparr>State := s\<rparr>]\<rparr>"

definition NewGame :: "heap \<Rightarrow> nat \<times> heap" where
  "NewGame h =
     (let (board, h1) = NewBoard h
      in (length (games h1),
          h1\<lparr>games := games h1 @
            [\<lparr>Board = board, CurrentPlayer = White, State = Playing, MoveHistory = []\<rparr>]\<rparr>))"

text \<open>
  \<^verbatim>\<open>isInCheck\<close>: the first loop stops at the first king of the player in row-major
  order (\<open>find\<close>); the second returns true at the first opposing piece that has a
  valid move to the king's square (\<open>list_ex\<close>).
\<close>

definition isInCheck :: "heap \<Rightarrow> nat \<Rightarrow> Color \<Rightarrow> bool" where
  "isInCheck h g player =
     (let b = Board (games h ! g) in
      case find (\<lambda>pos. case GetPiece h b pos of
                          None \<Rightarrow> False
                        | Some piece \<Rightarrow>
                            Type (pieces h ! piece) = King \<and> Color (pieces h ! piece) = player)
             allPositions of
        None \<Rightarrow> False
      | Some kingPos \<Rightarrow>
          let opponent = (if player = Black then White else Black) in
          list_ex (\<lambda>pos. case GetPiece h b pos of
                            None \<Rightarrow> False
                          | Some piece \<Rightarrow>
                              Color (pieces h ! piece) = opponent
                                \<and> IsValidMove h b (NewMove pos kingPos) opponent)
            allPositions)"

text \<open>
  \<^verbatim>\<open>hasValidMoves\<close>. \<open>tryMoves\<close> is the loop over the valid moves of one piece: the
  move is made on the live board, \<^verbatim>\<open>isInCheck\<close> is asked, and the move is undone by
  \<^verbatim>\<open>MovePiece(move.To, move.From)\<close> and \<^verbatim>\<open>SetPiece(move.To, originalPiece)\<close>.
  \<open>scanSquares\<close> is the loop over the squares.
\<close>

fun tryMoves :: "heap \<Rightarrow> nat \<Rightarrow> Color \<Rightarrow> Move list \<Rightarrow> bool \<times> heap" where
  "tryMoves h g player [] = (False, h)"
| "tryMoves h g player (move # moves) =
     (let b = Board (games h ! g);
          originalPiece = GetPiece h b (To move);
          h1 = snd (MovePiece h b (From move) (To move));
          inCheck = isInCheck h1 g player;
          h2 = snd (MovePiece h1 b (To move) (From move));
          h3 = SetPiece h2 b (To move) originalPiece
      in if \<not> inCheck then (True, h3) else tryMoves h3 g player moves)"

fun scanSquares :: "heap \<Rightarrow> nat \<Rightarrow> Color \<Rightarrow> Position list \<Rightarrow> bool \<times> heap" where
  "scanSquares h g player [] = (False, h)"
| "scanSquares h g player (pos # rest) =
     (let b = Board (games h ! g) in
      case GetPiece h b pos of
        None \<Rightarrow> scanSquares h g player rest
      | Some piece \<Rightarrow>
          if Color (pieces h ! piece) = player then
            (let (found, h1) = tryMoves h g player (GetValidMoves h b pos)
             in if found then (True, h1) else scanSquares h1 g player rest)
          else scanSquares h g player rest)"

definition hasValidMoves :: "heap \<Rightarrow> nat \<Rightarrow> Color \<Rightarrow> bool \<times> heap" where
  "hasValidMoves h g player = scanSquares h g player allPositions"

definition updateGameState :: "heap \<Rightarrow> nat \<Rightarrow> heap" where
  "updateGameState h g =
     (let player = CurrentPlayer (games h ! g) in
      if isInCheck h g player then
        (let (valid, h1) = hasValidMoves h g player
         in if valid then setState h1 g Check else setState h1 g Checkmate)
      else
        (let (valid, h1) = hasValidMoves h g player
         in if \<not> valid then setState h1 g Stalemate else setState h1 g Playing))"

text \<open>
  \<^verbatim>\<open>MakeMove\<close> returns Go's \<^verbatim>\<open>error\<close>: \<open>None\<close> is \<^verbatim>\<open>nil\<close>. The store is returned
  with it.
\<close>

definition MakeMove :: "heap \<Rightarrow> nat \<Rightarrow> string \<Rightarrow> string \<Rightarrow> error option \<times> heap" where
  "MakeMove h g from to =
     (case FromAlgebraic from of
        Inl err \<Rightarrow> (Some (InvalidFromPosition err), h)
      | Inr fromPos \<Rightarrow>
          (case FromAlgebraic to of
             Inl err \<Rightarrow> (Some (InvalidToPosition err), h)
           | Inr toPos \<Rightarrow>
               let move = NewMove fromPos toPos in
               if \<not> IsValidMove h (Board (games h ! g)) move (CurrentPlayer (games h ! g))
               then (Some InvalidMove, h)
               else
                 let h1 = snd (MovePiece h (Board (games h ! g)) (From move) (To move));
                     h2 = h1\<lparr>games := (games h1)[g := (games h1 ! g)
                            \<lparr>MoveHistory := MoveHistory (games h1 ! g) @ [move]\<rparr>]\<rparr>;
                     h3 = h2\<lparr>games := (games h2)[g := (games h2 ! g)
                            \<lparr>CurrentPlayer :=
                               (if CurrentPlayer (games h2 ! g) = White then Black else White)\<rparr>]\<rparr>;
                     h4 = updateGameState h3 g
                 in (None, h4)))"

section \<open>The search engine (ai.go)\<close>

text \<open>
  Scores are \<^verbatim>\<open>float64\<close>. The search compares scores, takes \<^verbatim>\<open>math.Max\<close> and
  \<^verbatim>\<open>math.Min\<close> of them and starts from \<^verbatim>\<open>math.Inf(-1)\<close> and \<^verbatim>\<open>math.Inf(1)\<close>; the
  only arithmetic it does itself is \<^verbatim>\<open>-1000.0 + float64(ply)\<close> and
  \<^verbatim>\<open>1000.0 - float64(ply)\<close>, which is exact. A score is modelled as the real number the
  float denotes, or one of the two infinities; no operation here produces a NaN.
\<close>

datatype float64 = NegInf | Finite real | PosInf

fun flt :: "float64 \<Rightarrow> float64 \<Rightarrow> bool" where
  "flt NegInf NegInf = False"
| "flt NegInf (Finite y) = True"
| "flt NegInf PosInf = True"
| "flt (Finite x) NegInf = False"
| "flt (Finite x) (Finite y) = (x < y)"
| "flt (Finite x) PosInf = True"
| "flt PosInf y = False"

definition fle :: "float64 \<Rightarrow> float64 \<Rightarrow> bool" where
  "fle x y = (flt x y \<or> x = y)"

definition fmax :: "float64 \<Rightarrow> float64 \<Rightarrow> float64" where
  "fmax x y = (if flt x y then y else x)"

definition fmin :: "float64 \<Rightarrow> float64 \<Rightarrow> float64" where
  "fmin x y = (if flt y x then y else x)"

record TranspositionEntry =
  entryDepth :: nat
  entryScore :: float64
  entryFlag :: int

text \<open>
  \<^verbatim>\<open>type AI struct\<close>. The fields \<^verbatim>\<open>color\<close> and \<^verbatim>\<open>depth\<close> are \<open>aiColor\<close> and
  \<open>aiDepth\<close>; \<^verbatim>\<open>killerMoves [10][2]Move\<close> is a function of the ply, read and written
  only under the guard \<^verbatim>\<open>ply < 10\<close>. The engine is one object, threaded through the
  search as a value.
\<close>

record AI =
  aiColor :: Color
  aiDepth :: int
  transpositionTable :: "64 word \<rightharpoonup> TranspositionEntry"
  killerMoves :: "nat \<Rightarrow> Move \<times> Move"
  historyTable :: "Move \<rightharpoonup> int"

definition zeroPosition :: Position where
  "zeroPosition = \<lparr>Row = 0, Col = 0\<rparr>"

definition zeroMove :: Move where
  "zeroMove = \<lparr>From = zeroPosition, To = zeroPosition\<rparr>"

definition NewAI :: "Color \<Rightarrow> int \<Rightarrow> AI" where
  "NewAI color depth =
     \<lparr>aiColor = color, aiDepth = depth, transpositionTable = Map.empty,
      killerMoves = (\<lambda>_. (zeroMove, zeroMove)), historyTable = Map.empty\<rparr>"

text \<open>
  \<^verbatim>\<open>evaluatePosition\<close>: the two terminal cases come first and use no arithmetic. The
  rest adds and multiplies \<^verbatim>\<open>float64\<close> constants such as 3.2 and 0.05 (material,
  piece-square tables, centre, king safety, mobility), with the rounding of the machine.
  That sum reads \<^verbatim>\<open>ai.color\<close> and the game through \<^verbatim>\<open>GetPiece\<close>, \<^verbatim>\<open>findKing\<close> and
  \<^verbatim>\<open>getAllPossibleMovesForColor\<close> and writes nothing; it is the parameter
  \<open>heuristic\<close>, so what is proved of the search holds for every such function.
\<close>

type_synonym evaluator = "Color \<Rightarrow> heap \<Rightarrow> nat \<Rightarrow> float64"

definition evaluatePosition :: "evaluator \<Rightarrow> AI \<Rightarrow> heap \<Rightarrow> nat \<Rightarrow> float64" where
  "evaluatePosition heuristic ai h game =
     (if State (games h ! game) = Checkmate then
        (if CurrentPlayer (games h ! game) = aiColor ai then Finite (- 1000) else Finite 1000)
      else if State (games h ! game) = Stalemate then Finite 0
      else heuristic (aiColor ai) h game)"

text \<open>
  \<^verbatim>\<open>sort.Slice\<close> of the standard library orders the scored moves; it is not stable. The
  search takes it as a parameter.
\<close>

type_synonym sorter = "(Move \<times> int) list \<Rightarrow> (Move \<times> int) list"

definition hashPosition :: "heap \<Rightarrow> nat \<Rightarrow> 64 word" where
  "hashPosition h game =
     (let hash =
        fold (\<lambda>pos hash.
                case GetPiece h (Board (games h ! game)) pos of
                  None \<Rightarrow> hash
                | Some piece \<Rightarrow>
                    let pieceValue =
                          word_of_nat (pieceTypeCode (Type (pieces h ! piece)))
                            + word_of_nat (colorCode (Color (pieces h ! piece))) * 10
                    in hash XOR (pieceValue * word_of_int (Row pos * 8 + Col pos + 1)))
          allPositions 0
      in hash XOR (word_of_nat (colorCode (CurrentPlayer (games h ! game))) * 1000000))"

definition isCapture :: "heap \<Rightarrow> Move \<Rightarrow> nat \<Rightarrow> bool" where
  "isCapture h move game = (GetPiece h (Board (games h ! game)) (To move) \<noteq> None)"

definition isCenterMove :: "Position \<Rightarrow> bool" where
  "isCenterMove pos = ((Row pos \<ge> 2 \<and> Row pos \<le> 5) \<and> (Col pos \<ge> 2 \<and> Col pos \<le> 5))"

fun getPieceValue :: "PieceType \<Rightarrow> int" where
  "getPieceValue Pawn = 1"
| "getPieceValue Knight = 3"
| "getPieceValue Bishop = 3"
| "getPieceValue Rook = 5"
| "getPieceValue Queen = 9"
| "getPieceValue King = 0"

text \<open>Go's integer division truncates towards zero.\<close>

definition truncDiv :: "int \<Rightarrow> int \<Rightarrow> int" where
  "truncDiv a b = sgn a * sgn b * (\<bar>a\<bar> div \<bar>b\<bar>)"

text \<open>
  The body of the loop of \<^verbatim>\<open>orderMoves\<close>. \<open>developmentBonus\<close> is its last block
  (\<^verbatim>\<open>// Prioritize piece development\<close>): what it adds to the score.
\<close>

definition developmentBonus :: "heap \<Rightarrow> nat \<Rightarrow> Move \<Rightarrow> int" where
  "developmentBonus h game move =
     (case GetPiece h (Board (games h ! game)) (From move) of
        None \<Rightarrow> 0
      | Some piece \<Rightarrow>
          if Type (pieces h ! piece) = Knight \<or> Type (pieces h ! piece) = Bishop then
            (if (Color (pieces h ! piece) = White \<and> Row (From move) = 0)
                  \<or> (Color (pieces h ! piece) = Black \<and> Row (From move) = 7)
             then 30 else 0)
          else 0)"

definition moveScore :: "heap \<Rightarrow> AI \<Rightarrow> nat \<Rightarrow> nat \<Rightarrow> Move \<Rightarrow> int" where
  "moveScore h ai game ply move =
     (let b = Board (games h ! game);
          capture =
            (if isCapture h move game then
               (case (GetPiece h b (From move), GetPiece h b (To move)) of
                  (Some attacker, Some victim) \<Rightarrow>
                    getPieceValue (Type (pieces h ! victim)) * 10
                      - getPieceValue (Type (pieces h ! attacker))
                | _ \<Rightarrow> 0)
             else 0);
          killer =
            (if ply < 10 then
               (if move = fst (killerMoves ai ply) then 900
                else if move = snd (killerMoves ai ply) then 800 else 0)
             else 0);
          history =
            (case historyTable ai move of
               Some historyScore \<Rightarrow> truncDiv historyScore 100
             | None \<Rightarrow> 0);
          center = (if isCenterMove (To move) then 50 else 0)
      in 0 + capture + killer + history + center + developmentBonus h game move)"

definition orderMoves :: "sorter \<Rightarrow> heap \<Rightarrow> AI \<Rightarrow> Move list \<Rightarrow> nat \<Rightarrow> nat \<Rightarrow> Move list" where
  "orderMoves sortSlice h ai moves game ply =
     map fst (sortSlice (map (\<lambda>move. (move, moveScore h ai game ply move)) moves))"

definition getAllPossibleMovesForColor :: "heap \<Rightarrow> nat \<Rightarrow> Color \<Rightarrow> Move list" where
  "getAllPossibleMovesForColor h game color =
     concat (map (\<lambda>from.
                    case GetPiece h (Board (games h ! game)) from of
                      None \<Rightarrow> []
                    | Some piece \<Rightarrow>
                        if Color (pieces h ! piece) \<noteq> color then []
                        else GetValidMoves h (Board (games h ! game)) from)
               allPositions)"

definition getAllPossibleMoves :: "heap \<Rightarrow> nat \<Rightarrow> Move list" where
  "getAllPossibleMoves h game =
     getAllPossibleMovesForColor h game (CurrentPlayer (games h ! game))"

text \<open>
  \<^verbatim>\<open>copyGame\<close>: a new game on \<^verbatim>\<open>NewBoard()\<close>, which is set up in the initial position;
  then, for every square of the original that holds a piece, a new piece of the same
  kind and colour is stored on that square of the new board. The move history is copied
  into a new slice.
\<close>

definition copyPiece :: "nat \<Rightarrow> nat \<Rightarrow> Position \<Rightarrow> heap \<Rightarrow> heap" where
  "copyPiece game newGame pos h =
     (case GetPiece h (Board (games h ! game)) pos of
        None \<Rightarrow> h
      | Some piece \<Rightarrow>
          let newPiece = length (pieces h);
              h1 = h\<lparr>pieces := pieces h @
                     [\<lparr>Type = Type (pieces h ! piece), Color = Color (pieces h ! piece),
                       HasMoved = False\<rparr>]\<rparr>
          in SetPiece h1 (Board (games h1 ! newGame)) pos (Some newPiece))"

definition copyGame :: "heap \<Rightarrow> nat \<Rightarrow> nat \<times> heap" where
  "copyGame h game =
     (let (board, h1) = NewBoard h;
          newGame = length (games h1);
          h2 = h1\<lparr>games := games h1 @
                 [\<lparr>Board = board, CurrentPlayer = CurrentPlayer (games h ! game),
                   State = State (games h ! game),
                   MoveHistory = MoveHistory (games h ! game)\<rparr>]\<rparr>
      in (newGame, fold (copyPiece game newGame) allPositions h2))"

text \<open>
  The transposition-table lookup at the head of \<^verbatim>\<open>minimax\<close>: \<open>Inl\<close> is the score it
  returns at once, \<open>Inr\<close> the window \<^verbatim>\<open>(alpha, beta)\<close> the search goes on with.
\<close>

definition probe ::
  "AI \<Rightarrow> 64 word \<Rightarrow> nat \<Rightarrow> float64 \<Rightarrow> float64 \<Rightarrow> float64 + float64 \<times> float64" where
  "probe ai hash depth alpha beta =
     (case transpositionTable ai hash of
        None \<Rightarrow> Inr (alpha, beta)
      | Some entry \<Rightarrow>
          if entryDepth entry \<ge> depth then
            (if entryFlag entry = 0 then Inl (entryScore entry)
             else
               let alpha1 = (if entryFlag entry = 1 then fmax alpha (entryScore entry) else alpha);
                   beta1 = (if entryFlag entry = 2 then fmin beta (entryScore entry) else beta)
               in if fle beta1 alpha1 then Inl (entryScore entry) else Inr (alpha1, beta1))
          else Inr (alpha, beta))"

definition storeEntry :: "AI \<Rightarrow> 64 word \<Rightarrow> nat \<Rightarrow> float64 \<Rightarrow> int \<Rightarrow> AI" where
  "storeEntry ai hash depth score flag =
     ai\<lparr>transpositionTable := (transpositionTable ai)
          (hash \<mapsto> \<lparr>entryDepth = depth, entryScore = score, entryFlag = flag\<rparr>)\<rparr>"

text \<open>
  The loop over the ordered moves in \<^verbatim>\<open>minimax\<close>. \<open>child\<close> is the recursive call
  \<^verbatim>\<open>ai.minimax(gameCopy, depth-1, !isMaximizing, alpha, beta, ply+1)\<close>. The loop returns
  the store, the engine, \<^verbatim>\<open>bestScore\<close>, \<^verbatim>\<open>alpha\<close> and \<^verbatim>\<open>beta\<close>.
\<close>

fun searchMoves ::
  "(heap \<Rightarrow> AI \<Rightarrow> nat \<Rightarrow> float64 \<Rightarrow> float64 \<Rightarrow> float64 \<times> heap \<times> AI)
     \<Rightarrow> nat \<Rightarrow> nat \<Rightarrow> bool \<Rightarrow> nat \<Rightarrow> Move list \<Rightarrow> heap \<Rightarrow> AI
     \<Rightarrow> float64 \<Rightarrow> float64 \<Rightarrow> float64 \<Rightarrow> heap \<times> AI \<times> float64 \<times> float64 \<times> float64" where
  "searchMoves child game depth isMaximizing ply [] h ai bestScore alpha beta =
     (h, ai, bestScore, alpha, beta)"
| "searchMoves child game depth isMaximizing ply (move # rest) h ai bestScore alpha beta =
     (let (gameCopy, h1) = copyGame h game;
          (err, h2) = MakeMove h1 gameCopy (String (From move)) (String (To move))
      in if err \<noteq> None then
           searchMoves child game depth isMaximizing ply rest h2 ai bestScore alpha beta
         else
           let (score, h3, ai1) = child h2 ai gameCopy alpha beta;
               bestScore1 =
                 (if isMaximizing then (if flt bestScore score then score else bestScore)
                  else (if flt score bestScore then score else bestScore));
               alpha1 = (if isMaximizing then fmax alpha score else alpha);
               beta1 = (if isMaximizing then beta else fmin beta score)
           in if fle beta1 alpha1 then
                (let ai2 =
                       (if ply < 10 \<and> \<not> isCapture h3 move game then
                          ai1\<lparr>killerMoves := (killerMoves ai1)
                                (ply := (move, fst (killerMoves ai1 ply)))\<rparr>
                        else ai1);
                     ai3 =
                       ai2\<lparr>historyTable := (historyTable ai2)
                             (move \<mapsto> (case historyTable ai2 move of None \<Rightarrow> 0 | Some v \<Rightarrow> v)
                                        + int depth * int depth)\<rparr>
                 in (h3, ai3, bestScore1, alpha1, beta1))
              else
                searchMoves child game depth isMaximizing ply rest h3 ai1 bestScore1 alpha1 beta1)"

text \<open>
  \<^verbatim>\<open>minimax\<close>. \<^verbatim>\<open>depth\<close> and \<^verbatim>\<open>ply\<close> are Go \<^verbatim>\<open>int\<close>s; \<^verbatim>\<open>GetBestMove\<close> calls with
  \<^verbatim>\<open>currentDepth-1 \<ge> 0\<close> and \<^verbatim>\<open>ply = 1\<close>, and each recursive call is under
  \<^verbatim>\<open>depth \<noteq> 0\<close> with \<^verbatim>\<open>depth-1\<close> and \<^verbatim>\<open>ply+1\<close>, so both are natural numbers.
\<close>

fun minimax ::
  "evaluator \<Rightarrow> sorter \<Rightarrow> heap \<Rightarrow> AI \<Rightarrow> nat \<Rightarrow> nat \<Rightarrow> bool \<Rightarrow> float64 \<Rightarrow> float64 \<Rightarrow> nat
     \<Rightarrow> float64 \<times> heap \<times> AI" where
  "minimax heuristic sortSlice h ai game depth isMaximizing alpha beta ply =
     (let hash = hashPosition h game in
      case probe ai hash depth alpha beta of
        Inl score \<Rightarrow> (score, h, ai)
      | Inr (alpha0, beta0) \<Rightarrow>
          if depth = 0 \<or> State (games h ! game) \<noteq> Playing then
            (let score = evaluatePosition heuristic ai h game
             in (score, h, storeEntry ai hash depth score 0))
          else
            let moves = getAllPossibleMoves h game in
            if length moves = 0 then
              (if isInCheck h game (CurrentPlayer (games h ! game)) then
                 (if isMaximizing then (Finite (- 1000 + real ply), h, ai)
                  else (Finite (1000 - real ply), h, ai))
               else (Finite 0, h, ai))
            else
              let orderedMoves = orderMoves sortSlice h ai moves game ply;
                  originalAlpha = alpha0;
                  (h1, ai1, bestScore, alpha1, beta1) =
                    searchMoves
                      (\<lambda>h ai gameCopy alpha beta.
                         minimax heuristic sortSlice h ai gameCopy (depth - 1)
                           (\<not> isMaximizing) alpha beta (ply + 1))
                      game depth isMaximizing ply orderedMoves h ai
                      (if \<not> isMaximizing then PosInf else NegInf) alpha0 beta0;
                  flag = (if fle bestScore originalAlpha then 2
                          else if fle beta1 bestScore then 1 else 0)
              in (bestScore, h1, storeEntry ai1 hash depth bestScore flag))"

declare minimax.simps [simp del]

text \<open>
  \<^verbatim>\<open>GetBestMove\<close>. \<open>rootMoves\<close> is the loop over the ordered moves at one depth,
  \<open>deepen\<close> the loop \<^verbatim>\<open>for currentDepth := 1; currentDepth <= ai.depth\<close>. The result is
  \<^verbatim>\<open>(from, to, found)\<close> with the store and the engine after the call.
\<close>

fun rootMoves ::
  "evaluator \<Rightarrow> sorter \<Rightarrow> nat \<Rightarrow> int \<Rightarrow> Move list \<Rightarrow> heap \<Rightarrow> AI \<Rightarrow> Move \<Rightarrow> float64
     \<Rightarrow> heap \<times> AI \<times> Move \<times> float64" where
  "rootMoves heuristic sortSlice game currentDepth [] h ai tempBestMove tempBestScore =
     (h, ai, tempBestMove, tempBestScore)"
| "rootMoves heuristic sortSlice game currentDepth (move # rest) h ai
       tempBestMove tempBestScore =
     (let (gameCopy, h1) = copyGame h game;
          (err, h2) = MakeMove h1 gameCopy (String (From move)) (String (To move))
      in if err \<noteq> None then
           rootMoves heuristic sortSlice game currentDepth rest h2 ai
             tempBestMove tempBestScore
         else
           let (score, h3, ai1) =
                 minimax heuristic sortSlice h2 ai gameCopy (nat (currentDepth - 1))
                   False NegInf PosInf 1
           in if flt tempBestScore score then
                rootMoves heuristic sortSlice game currentDepth rest h3 ai1 move score
              else
                rootMoves heuristic sortSlice game currentDepth rest h3 ai1
                  tempBestMove tempBestScore)"

fun deepen ::
  "evaluator \<Rightarrow> sorter \<Rightarrow> nat \<Rightarrow> Move list \<Rightarrow> int list \<Rightarrow> heap \<Rightarrow> AI \<Rightarrow> Move \<Rightarrow> float64
     \<Rightarrow> heap \<times> AI \<times> Move \<times> float64" where
  "deepen heuristic sortSlice game allMoves [] h ai bestMove bestScore =
     (h, ai, bestMove, bestScore)"
| "deepen heuristic sortSlice game allMoves (currentDepth # depths) h ai
       bestMove bestScore =
     (let orderedMoves = orderMoves sortSlice h ai allMoves game 0;
          (h1, ai1, tempBestMove, tempBestScore) =
            rootMoves heuristic sortSlice game currentDepth orderedMoves h ai
              zeroMove NegInf
      in if flt bestScore tempBestScore then
           deepen heuristic sortSlice game allMoves depths h1 ai1
             tempBestMove tempBestScore
         else deepen heuristic sortSlice game allMoves depths h1 ai1 bestMove bestScore)"

definition GetBestMove ::
  "evaluator \<Rightarrow> sorter \<Rightarrow> heap \<Rightarrow> AI \<Rightarrow> nat \<Rightarrow> (Position \<times> Position \<times> bool) \<times> heap \<times> AI" where
  "GetBestMove heuristic sortSlice h ai game =
     (if CurrentPlayer (games h ! game) \<noteq> aiColor ai then
        ((zeroPosition, zeroPosition, False), h, ai)
      else
        let allMoves = getAllPossibleMoves h game in
        if length allMoves = 0 then ((zeroPosition, zeroPosition, False), h, ai)
        else
          let ai0 = ai\<lparr>killerMoves := (\<lambda>_. (zeroMove, zeroMove))\<rparr>;
              (h1, ai1, bestMove, bestScore) =
                deepen heuristic sortSlice game allMoves [1..aiDepth ai0] h ai0
                  zeroMove NegInf
          in ((From bestMove, To bestMove, True), h1, ai1))"

section \<open>The claims' own words and the positions they are tried on\<close>

text \<open>
  The pawn rule as the specification words it: \<open>forward\<close> is the direction in which a
  colour's pawns move (White towards row 0), \<open>startingRank\<close> the row its pawns start
  on. A square is empty when \<^verbatim>\<open>GetPiece\<close> gives \<^verbatim>\<open>nil\<close> for it.
\<close>

definition forward :: "Color \<Rightarrow> int" where
  "forward c = (case c of White \<Rightarrow> - 1 | Black \<Rightarrow> 1)"

definition startingRank :: "Color \<Rightarrow> int" where
  "startingRank c = (case c of White \<Rightarrow> 6 | Black \<Rightarrow> 1)"

definition pawnOneForward :: "heap \<Rightarrow> nat \<Rightarrow> Move \<Rightarrow> Color \<Rightarrow> bool" where
  "pawnOneForward h b move c =
     (Col (To move) = Col (From move) \<and> Row (To move) = Row (From move) + forward c
        \<and> GetPiece h b (To move) = None)"

definition pawnTwoForward :: "heap \<Rightarrow> nat \<Rightarrow> Move \<Rightarrow> Color \<Rightarrow> bool" where
  "pawnTwoForward h b move c =
     (Col (To move) = Col (From move) \<and> Row (To move) = Row (From move) + 2 * forward c
        \<and> Row (From move) = startingRank c
        \<and> GetPiece h b (NewPosition (Row (From move) + forward c) (Col (From move))) = None
        \<and> GetPiece h b (To move) = None)"

definition pawnCapture :: "heap \<Rightarrow> nat \<Rightarrow> Move \<Rightarrow> Color \<Rightarrow> bool" where
  "pawnCapture h b move c =
     (\<bar>Col (To move) - Col (From move)\<bar> = 1 \<and> Row (To move) = Row (From move) + forward c
        \<and> (case GetPiece h b (To move) of
              None \<Rightarrow> False
            | Some destPiece \<Rightarrow> Color (pieces h ! destPiece) \<noteq> c))"

text \<open>
  The store with no object, and the store after \<^verbatim>\<open>NewGame()\<close> on it: game 0 on board 0,
  with the 32 pieces of the initial position.
\<close>

definition emptyHeap :: heap where
  "emptyHeap = \<lparr>pieces = [], boards = [], games = []\<rparr>"

definition initialHeap :: heap where
  "initialHeap = snd (NewGame emptyHeap)"


text \<open>
  C2 in the specification's words: a side has a legal move when one of its pieces has
  a valid move after which, made on the board, its own king is not in check.
\<close>

definition hasLegalMove :: "heap \<Rightarrow> nat \<Rightarrow> Color \<Rightarrow> bool" where
  "hasLegalMove h g player =
     list_ex (\<lambda>from.
        (case GetPiece h (Board (games h ! g)) from of
           None \<Rightarrow> False
         | Some piece \<Rightarrow> Color (pieces h ! piece) = player)
        \<and> list_ex (\<lambda>to.
              IsValidMove h (Board (games h ! g)) (NewMove from to) player
                \<and> \<not> isInCheck (snd (MovePiece h (Board (games h ! g)) from to)) g player)
            allPositions)
       allPositions"

definition classify :: "bool \<Rightarrow> bool \<Rightarrow> GameState" where
  "classify inCheck legalMove =
     (if inCheck \<and> legalMove then Check
      else if inCheck \<and> \<not> legalMove then Checkmate
      else if \<not> inCheck \<and> \<not> legalMove then Stalemate
      else Playing)"

text \<open>
  Two stores have the same shape when their boards are equal, every game is on the same
  board, and every piece has the same kind and colour: they differ at most in
  \<^verbatim>\<open>HasMoved\<close> flags and in the games' other fields.
\<close>

definition sameShape :: "heap \<Rightarrow> heap \<Rightarrow> bool" where
  "sameShape h h' \<longleftrightarrow>
     boards h' = boards h
       \<and> (\<forall>g. Board (games h' ! g) = Board (games h ! g))
       \<and> (\<forall>p. Type (pieces h' ! p) = Type (pieces h ! p)
              \<and> Color (pieces h' ! p) = Color (pieces h ! p))"


text \<open>
  A position with a white king on a8 hemmed in by its own pawns on b8, a7 and b7 and
  checked by a black knight on c7: White, to move, has no valid move. The game carries
  the state given; such a game is set up by hand, as the tests of the package do.
\<close>

definition cornered :: "GameState \<Rightarrow> heap" where
  "cornered s =
     \<lparr>pieces =
        [\<lparr>Type = King, Color = White, HasMoved = False\<rparr>,
         \<lparr>Type = Pawn, Color = White, HasMoved = False\<rparr>,
         \<lparr>Type = Pawn, Color = White, HasMoved = False\<rparr>,
         \<lparr>Type = Pawn, Color = White, HasMoved = False\<rparr>,
         \<lparr>Type = Knight, Color = Black, HasMoved = False\<rparr>],
      boards =
        [\<lparr>squares = (\<lambda>_. None)
           ((0, 0) := Some 0, (0, 1) := Some 1, (1, 0) := Some 2, (1, 1) := Some 3,
            (1, 2) := Some 4)\<rparr>],
      games = [\<lparr>Board = 0, CurrentPlayer = White, State = s, MoveHistory = []\<rparr>]\<rparr>"

definition flatHeuristic :: evaluator where
  "flatHeuristic color h game = Finite 0"

definition keepOrder :: sorter where
  "keepOrder scoredMoves = scoredMoves"


text \<open>
  A mate in one: White has only a king on h1; Black, to move, has a king on g3 and a
  queen on a2. After a2-a1 the white king is in check along the first rank and its
  three squares g1, g2 and h2 are covered by the queen and the king.
\<close>

definition mateInOne :: heap where
  "mateInOne =
     \<lparr>pieces =
        [\<lparr>Type = King, Color = White, HasMoved = True\<rparr>,
         \<lparr>Type = King, Color = Black, HasMoved = True\<rparr>,
         \<lparr>Type = Queen, Color = Black, HasMoved = True\<rparr>],
      boards =
        [\<lparr>squares = (\<lambda>_. None)((7, 7) := Some 0, (5, 6) := Some 1, (6, 0) := Some 2)\<rparr>],
      games = [\<lparr>Board = 0, CurrentPlayer = Black, State = Playing, MoveHistory = []\<rparr>]\<rparr>"


text \<open>
  C4 in the model. \<open>extends h h'\<close>: every object of the store \<open>h\<close> is still there in
  \<open>h'\<close> with the content it had; \<open>h'\<close> may hold more objects. \<open>gameView\<close> is what a
  caller sees of a game: the side to move, the state, the history and, square by
  square, the piece (kind, colour and flag) or none. \<open>inStore\<close>: the game, its board
  and the pieces on its squares are objects of the store.
\<close>

definition extends :: "heap \<Rightarrow> heap \<Rightarrow> bool" where
  "extends h h' \<longleftrightarrow>
     take (length (pieces h)) (pieces h') = pieces h
       \<and> take (length (boards h)) (boards h') = boards h
       \<and> take (length (games h)) (games h') = games h"

definition pieceAt :: "heap \<Rightarrow> nat \<Rightarrow> Position \<Rightarrow> Piece option" where
  "pieceAt h b pos = map_option (\<lambda>piece. pieces h ! piece) (GetPiece h b pos)"

definition gameView :: "heap \<Rightarrow> nat \<Rightarrow> Color \<times> GameState \<times> Move list \<times> Piece option list" where
  "gameView h game =
     (CurrentPlayer (games h ! game), State (games h ! game), MoveHistory (games h ! game),
      map (pieceAt h (Board (games h ! game))) allPositions)"

definition inStore :: "heap \<Rightarrow> nat \<Rightarrow> bool" where
  "inStore h game \<longleftrightarrow>
     game < length (games h) \<and> Board (games h ! game) < length (boards h)
       \<and> list_all (\<lambda>pos. case GetPiece h (Board (games h ! game)) pos of
                            None \<Rightarrow> True
                          | Some piece \<Rightarrow> piece < length (pieces h))
           allPositions"

text \<open>
  \<open>unchangedBelow\<close>: the objects below the three marks are the same in both stores.
  \<open>boardAbove\<close>: every piece pointer on the board is at or above the mark.
\<close>

definition unchangedBelow :: "nat \<Rightarrow> nat \<Rightarrow> nat \<Rightarrow> heap \<Rightarrow> heap \<Rightarrow> bool" where
  "unchangedBelow np nb ng h h' \<longleftrightarrow>
     take np (pieces h') = take np (pieces h)
       \<and> take nb (boards h') = take nb (boards h)
       \<and> take ng (games h') = take ng (games h)"

definition boardAbove :: "nat \<Rightarrow> heap \<Rightarrow> nat \<Rightarrow> bool" where
  "boardAbove np h b \<longleftrightarrow> (\<forall>pos piece. squares (boards h ! b) pos = Some piece \<longrightarrow> np \<le> piece)"

text \<open>
  While \<^verbatim>\<open>copyGame\<close> builds its copy in the store \<open>x\<close>, starting from \<open>h\<close>: the objects
  of \<open>h\<close> are untouched, the games are the list \<open>gs\<close>, and the board under construction,
  at the first index after the boards of \<open>h\<close>, holds only pieces created after \<open>h\<close>.
\<close>

definition building :: "heap \<Rightarrow> Game list \<Rightarrow> heap \<Rightarrow> bool" where
  "building h gs x \<longleftrightarrow>
     take (length (pieces h)) (pieces x) = pieces h
       \<and> take (length (boards h)) (boards x) = boards h
       \<and> games x = gs
       \<and> boardAbove (length (pieces h)) x (length (boards h))"


section \<open>The notation codec\<close>

lemma of_char_int_range: "0 \<le> (of_char c :: int) \<and> (of_char c :: int) < 256"
proof -
  have "(of_char c :: int) = int (of_char c)" by (rule of_nat_of_char [symmetric])
  moreover have "(of_char c :: nat) < 256" by simp
  ultimately show ?thesis by linarith
qed

lemma uint_byte: "uint (byte c) = of_char c"
proof -
  have "uint (byte c) = int (of_char c)"
    unfolding byte_def by (simp add: uint_nat unsigned_of_nat take_bit_nat_eq_self)
  then show ?thesis by (simp only: of_nat_of_char)
qed

lemma byte_sub_uint:
  "uint (byte c - byte d) = (of_char c - of_char d) mod 256"
  by (simp add: uint_word_ariths uint_byte)

lemma wrap256:
  fixes z :: int
  assumes "- 256 \<le> z" "z < 256"
  shows "z mod 256 = (if z < 0 then z + 256 else z)"
proof (cases "z < 0")
  case True
  have "(z + 256) mod 256 = z mod 256" by (rule mod_add_self2)
  moreover have "(z + 256) mod 256 = z + 256"
    by (rule mod_pos_pos_trivial) (use assms True in simp_all)
  ultimately show ?thesis using True by (simp only: if_True)
next
  case False
  then have "z mod 256 = z" using assms by (intro mod_pos_pos_trivial) simp_all
  then show ?thesis using False by (simp only: if_False)
qed

lemma FromAlgebraic_pair:
  "FromAlgebraic [a, b] =
     (if 0 \<le> 8 - (of_char b - 48) mod (256::int) \<and> 8 - (of_char b - 48) mod (256::int) < 8
         \<and> 0 \<le> (of_char a - 97) mod (256::int) \<and> (of_char a - 97) mod (256::int) < 8
      then Inr \<lparr>Row = 8 - (of_char b - 48) mod 256, Col = (of_char a - 97) mod 256\<rparr>
      else Inl (InvalidPositionErr [a, b]))"
proof -
  have col: "uint (byte a - byte CHR ''a'') = (of_char a - 97) mod 256"
    by (simp add: byte_sub_uint)
  have row: "uint (byte b - byte CHR ''0'') = (of_char b - 48) mod 256"
    by (simp add: byte_sub_uint)
  show ?thesis
    unfolding FromAlgebraic_def Let_def IsValid_def
    by (simp add: col row del: of_char_mod_256)
qed

text \<open>
  C5. For every coordinate \<open>(r, c)\<close> with \<open>r\<close> and \<open>c\<close> in \<open>0..7\<close>, parsing the text
  that \<^verbatim>\<open>String\<close> produces for it succeeds and gives the coordinate back.
\<close>

theorem String_FromAlgebraic_roundtrip:
  assumes "0 \<le> r" "r \<le> 7" "0 \<le> c" "c \<le> 7"
  shows "FromAlgebraic (String \<lparr>Row = r, Col = c\<rparr>) = Inr \<lparr>Row = r, Col = c\<rparr>"
proof -
  define a b where "a = char_of (97 + c)" and "b = char_of (48 + (8 - r))"
  have s: "String \<lparr>Row = r, Col = c\<rparr> = [a, b]"
    using assms by (simp add: String_def IsValid_def a_def b_def)
  have c0: "(of_char a - 97) mod (256::int) = c"
    using assms by (simp add: a_def)
  have c1: "(of_char b - 48) mod (256::int) = 8 - r"
    using assms by (simp add: b_def)
  have "FromAlgebraic [a, b] = Inr \<lparr>Row = r, Col = c\<rparr>"
    unfolding FromAlgebraic_pair c0 c1 using assms by simp
  then show ?thesis unfolding s .
qed

theorem String_FromAlgebraic_roundtrip_witness:
  "FromAlgebraic (String \<lparr>Row = 4, Col = 4\<rparr>) = Inr \<lparr>Row = 4, Col = 4\<rparr>"
  using String_FromAlgebraic_roundtrip [of 4 4] by simp

text \<open>
  C6. \<^verbatim>\<open>FromAlgebraic\<close> returns an error exactly when the text is not two characters
  long, or the decoded column (first character minus \<^verbatim>\<open>'a'\<close>) or the decoded row (8
  minus the digit value of the second character) is outside \<open>0..7\<close>. The decoded values
  are taken on unbounded integers; the byte subtraction of the code wraps around, and no
  wrapped value falls back into the range.
\<close>

theorem FromAlgebraic_error_iff:
  "isl (FromAlgebraic s) \<longleftrightarrow>
     (length s \<noteq> 2 \<or> decodedCol s < 0 \<or> decodedCol s > 7
        \<or> decodedRow s < 0 \<or> decodedRow s > 7)"
proof (cases "length s = 2")
  case False
  then show ?thesis by (simp add: FromAlgebraic_def)
next
  case True
  then obtain a b where s: "s = [a, b]"
    by (cases s; simp) (metis length_0_conv length_Suc_conv)
  define x y :: int where "x = of_char a" and "y = of_char b"
  have x: "0 \<le> x \<and> x < 256" and y: "0 \<le> y \<and> y < 256"
    unfolding x_def y_def by (rule of_char_int_range)+
  have mx: "(x - 97) mod 256 = (if x - 97 < 0 then x - 97 + 256 else x - 97)"
    using x by (intro wrap256) simp_all
  have my: "(y - 48) mod 256 = (if y - 48 < 0 then y - 48 + 256 else y - 48)"
    using y by (intro wrap256) simp_all
  have "isl (FromAlgebraic s) \<longleftrightarrow>
      \<not> (0 \<le> 8 - (y - 48) mod 256 \<and> 8 - (y - 48) mod 256 < 8
         \<and> 0 \<le> (x - 97) mod 256 \<and> (x - 97) mod 256 < 8)"
    unfolding s FromAlgebraic_pair x_def y_def by simp
  also have "\<dots> \<longleftrightarrow> (x - 97 < 0 \<or> x - 97 > 7 \<or> 8 - (y - 48) < 0 \<or> 8 - (y - 48) > 7)"
    unfolding mx my using x y by (simp split: if_splits) linarith
  finally show ?thesis
    using True by (simp add: decodedCol_def decodedRow_def x_def y_def s)
qed

theorem FromAlgebraic_error_iff_witness:
  "isl (FromAlgebraic ''z9'') \<and> \<not> isl (FromAlgebraic ''e4'')"
  using FromAlgebraic_error_iff [of "''z9''"] FromAlgebraic_error_iff [of "''e4''"]
  by (simp add: decodedCol_def decodedRow_def)

section \<open>Move legality\<close>

lemma isValidPawnMove_iff:
  "isValidPawnMove h b move piece \<longleftrightarrow>
     pawnOneForward h b move (Color (pieces h ! piece))
       \<or> pawnTwoForward h b move (Color (pieces h ! piece))
       \<or> pawnCapture h b move (Color (pieces h ! piece))"
proof (cases "Color (pieces h ! piece)")
  case White
  then show ?thesis
    unfolding isValidPawnMove_def pawnOneForward_def pawnTwoForward_def pawnCapture_def
      forward_def startingRank_def Let_def
    by (auto split: option.splits)
next
  case Black
  then show ?thesis
    unfolding isValidPawnMove_def pawnOneForward_def pawnTwoForward_def pawnCapture_def
      forward_def startingRank_def Let_def
    by (auto split: option.splits)
qed

text \<open>
  C7. A move of a pawn is valid exactly when it goes one square forward onto an empty
  square, or two squares forward from the starting rank of its colour with the square
  in between and the destination both empty, or one square diagonally forward onto a
  square that holds a piece of the other colour. The pawn is the piece on the
  from-square and moves for its own colour; nothing else (no en passant, no promotion
  move) is valid.
\<close>

theorem pawn_move_valid_iff:
  assumes "GetPiece h b (From move) = Some piece"
    and "Type (pieces h ! piece) = Pawn"
    and "Color (pieces h ! piece) = player"
  shows "IsValidMove h b move player \<longleftrightarrow>
           pawnOneForward h b move player \<or> pawnTwoForward h b move player
             \<or> pawnCapture h b move player"
proof -
  have rule: "isValidPawnMove h b move piece \<longleftrightarrow>
           pawnOneForward h b move player \<or> pawnTwoForward h b move player
             \<or> pawnCapture h b move player"
    using isValidPawnMove_iff [of h b move piece] assms(3) by simp
  show ?thesis
  proof (cases "GetPiece h b (To move)")
    case None
    then show ?thesis using assms rule by (simp add: IsValidMove_def)
  next
    case (Some destPiece)
    show ?thesis
    proof (cases "Color (pieces h ! destPiece) = player")
      case True
      then have "\<not> IsValidMove h b move player"
        using assms Some by (simp add: IsValidMove_def)
      moreover have "\<not> (pawnOneForward h b move player \<or> pawnTwoForward h b move player
             \<or> pawnCapture h b move player)"
        using Some True by (simp add: pawnOneForward_def pawnTwoForward_def pawnCapture_def)
      ultimately show ?thesis by simp
    next
      case False
      then show ?thesis using assms Some rule by (simp add: IsValidMove_def)
    qed
  qed
qed

theorem pawn_move_valid_iff_witness:
  "IsValidMove initialHeap 0 \<lparr>From = \<lparr>Row = 6, Col = 4\<rparr>, To = \<lparr>Row = 4, Col = 4\<rparr>\<rparr> White
     \<and> pawnTwoForward initialHeap 0
          \<lparr>From = \<lparr>Row = 6, Col = 4\<rparr>, To = \<lparr>Row = 4, Col = 4\<rparr>\<rparr> White"
proof -
  let ?m = "\<lparr>From = \<lparr>Row = 6, Col = 4\<rparr>, To = \<lparr>Row = 4, Col = 4\<rparr>\<rparr>"
  have a: "GetPiece initialHeap 0 (From ?m) = Some 12" by code_simp
  have b: "Type (pieces initialHeap ! 12) = Pawn" by code_simp
  have c: "Color (pieces initialHeap ! 12) = White" by code_simp
  have d: "pawnTwoForward initialHeap 0 ?m White" by code_simp
  from pawn_move_valid_iff [OF a b c] d show ?thesis by blast
qed

text \<open>
  C10. A move from a square to the same square is never valid, for any board, player
  and position: an empty from-square is rejected, and an occupied one makes the
  destination hold a piece of the mover's own colour.
\<close>

theorem IsValidMove_null_move: "\<not> IsValidMove h b \<lparr>From = p, To = p\<rparr> player"
  by (simp add: IsValidMove_def split: option.splits)

section \<open>Rejected moves\<close>

text \<open>
  C1. When \<^verbatim>\<open>MakeMove\<close> returns an error, for a notation that does not parse or a move
  that \<^verbatim>\<open>IsValidMove\<close> rejects, the store is the one before the call: the game, its
  board, its pieces, the side to move, the state and the history are unchanged.
\<close>

theorem MakeMove_error_unchanged:
  "fst (MakeMove h g from to) \<noteq> None \<Longrightarrow> snd (MakeMove h g from to) = h"
  by (auto simp: MakeMove_def Let_def split: sum.splits if_splits)

theorem MakeMove_error_unchanged_witness:
  "fst (MakeMove initialHeap 0 ''e7'' ''e5'') = Some InvalidMove
     \<and> snd (MakeMove initialHeap 0 ''e7'' ''e5'') = initialHeap
     \<and> fst (MakeMove initialHeap 0 ''z9'' ''e5'')
          = Some (InvalidFromPosition (InvalidPositionErr ''z9''))
     \<and> snd (MakeMove initialHeap 0 ''z9'' ''e5'') = initialHeap"
proof -
  have a: "fst (MakeMove initialHeap 0 ''e7'' ''e5'') = Some InvalidMove" by code_simp
  have b: "fst (MakeMove initialHeap 0 ''z9'' ''e5'')
             = Some (InvalidFromPosition (InvalidPositionErr ''z9''))" by code_simp
  have "snd (MakeMove initialHeap 0 ''e7'' ''e5'') = initialHeap"
    by (rule MakeMove_error_unchanged) (simp only: a option.distinct not_False_eq_True)
  moreover have "snd (MakeMove initialHeap 0 ''z9'' ''e5'') = initialHeap"
    by (rule MakeMove_error_unchanged) (simp only: b option.distinct not_False_eq_True)
  ultimately show ?thesis using a b by blast
qed

section \<open>The path loop returns on straight lines and diagonals\<close>

lemma pathLoop_returns:
  "Row to = r + int n * rs \<Longrightarrow> Col to = c + int n * cs
     \<Longrightarrow> pathLoop getPiece to rs cs r c \<noteq> None"
proof (induction n arbitrary: r c)
  case 0
  then show ?case by (subst pathLoop.simps) simp
next
  case (Suc n)
  have "pathLoop getPiece to rs cs (r + rs) (c + cs) \<noteq> None"
    using Suc.prems by (intro Suc.IH) (simp_all add: algebra_simps)
  then show ?case by (subst pathLoop.simps) auto
qed

lemma isPathClear_returns:
  assumes "Row from = Row to \<or> Col from = Col to
             \<or> \<bar>Row to - Row from\<bar> = \<bar>Col to - Col from\<bar>"
  shows "isPathClear h b from to \<noteq> None"
proof -
  define n where "n = nat (max \<bar>Row to - Row from\<bar> \<bar>Col to - Col from\<bar> - 1)"
  define rs :: int where
    "rs = (if Row to > Row from then 1 else if Row to < Row from then - 1 else 0)"
  define cs :: int where
    "cs = (if Col to > Col from then 1 else if Col to < Col from then - 1 else 0)"
  have "Row to = (Row from + rs) + int n * rs"
    using assms unfolding n_def rs_def by (auto simp: algebra_simps max_def split: if_splits)
  moreover have "Col to = (Col from + cs) + int n * cs"
    using assms unfolding n_def cs_def by (auto simp: algebra_simps max_def split: if_splits)
  ultimately have "pathLoop (GetPiece h b) to rs cs (Row from + rs) (Col from + cs) \<noteq> None"
    by (rule pathLoop_returns)
  then show ?thesis
    unfolding isPathClear_def Let_def rs_def cs_def .
qed

lemma isPathClear_straight:
  "Row from = Row to \<or> Col from = Col to \<Longrightarrow> isPathClear h b from to \<noteq> None"
  by (rule isPathClear_returns) blast

lemma isPathClear_diagonal:
  "\<bar>Row to - Row from\<bar> = \<bar>Col to - Col from\<bar> \<Longrightarrow> isPathClear h b from to \<noteq> None"
  by (rule isPathClear_returns) blast

section \<open>Move ordering\<close>

text \<open>
  What the development block of \<^verbatim>\<open>orderMoves\<close> adds: 30 for a knight or bishop that
  is White and moves from row 0, or Black and moves from row 7; otherwise nothing.
\<close>

lemma developmentBonus_eq:
  "developmentBonus h game move =
     (case GetPiece h (Board (games h ! game)) (From move) of
        None \<Rightarrow> 0
      | Some piece \<Rightarrow>
          if (Type (pieces h ! piece) = Knight \<or> Type (pieces h ! piece) = Bishop)
               \<and> Row (From move) = (case Color (pieces h ! piece) of White \<Rightarrow> 0 | Black \<Rightarrow> 7)
          then 30 else 0)"
  by (auto simp: developmentBonus_def split: option.splits Color.splits)

text \<open>
  C9. In the initial position the white knight on b1 stands on row 7, the back rank of
  White, and the move b1-c3 gets no development bonus: its score is the 50 of the
  centre alone. For a white knight or bishop the code asks for row 0, and for a black
  one for row 7.
\<close>

theorem developmentBonus_knight_on_own_back_rank:
  "GetPiece initialHeap 0 \<lparr>Row = 7, Col = 1\<rparr> = Some 1
     \<and> Type (pieces initialHeap ! 1) = Knight
     \<and> Color (pieces initialHeap ! 1) = White
     \<and> developmentBonus initialHeap 0
          \<lparr>From = \<lparr>Row = 7, Col = 1\<rparr>, To = \<lparr>Row = 5, Col = 2\<rparr>\<rparr> = 0
     \<and> moveScore initialHeap (NewAI Black 3) 0 0
          \<lparr>From = \<lparr>Row = 7, Col = 1\<rparr>, To = \<lparr>Row = 5, Col = 2\<rparr>\<rparr> = 50"
  by code_simp

section \<open>Stores of the same shape\<close>

lemma sameShape_refl: "sameShape h h"
  by (simp add: sameShape_def)

lemma sameShape_sym: "sameShape h h' \<Longrightarrow> sameShape h' h"
  by (simp add: sameShape_def)

lemma sameShape_trans: "sameShape h h' \<Longrightarrow> sameShape h' h'' \<Longrightarrow> sameShape h h''"
  by (simp add: sameShape_def)

lemma sameShape_GetPiece: "sameShape h h' \<Longrightarrow> GetPiece h' b = GetPiece h b"
  by (simp add: sameShape_def GetPiece_def fun_eq_iff)

lemma sameShape_Type: "sameShape h h' \<Longrightarrow> Type (pieces h' ! p) = Type (pieces h ! p)"
  by (simp add: sameShape_def)

lemma sameShape_Color: "sameShape h h' \<Longrightarrow> Color (pieces h' ! p) = Color (pieces h ! p)"
  by (simp add: sameShape_def)

lemma sameShape_Board: "sameShape h h' \<Longrightarrow> Board (games h' ! g) = Board (games h ! g)"
  by (simp add: sameShape_def)

lemma sameShape_isPathClear:
  assumes s: "sameShape h h'"
  shows "isPathClear h' b from to = isPathClear h b from to"
  unfolding isPathClear_def sameShape_GetPiece [OF s] ..

lemma sameShape_isValidPawnMove:
  assumes s: "sameShape h h'"
  shows "isValidPawnMove h' b move piece = isValidPawnMove h b move piece"
  unfolding isValidPawnMove_def sameShape_GetPiece [OF s] sameShape_Color [OF s] ..

lemma sameShape_IsValidMove:
  assumes s: "sameShape h h'"
  shows "IsValidMove h' b move player = IsValidMove h b move player"
  unfolding IsValidMove_def isValidQueenMove_def isValidRookMove_def isValidBishopMove_def
    isValidKnightMove_def isValidKingMove_def
    sameShape_isPathClear [OF s] sameShape_isValidPawnMove [OF s]
    sameShape_GetPiece [OF s] sameShape_Color [OF s] sameShape_Type [OF s] ..

lemma sameShape_GetValidMoves:
  assumes s: "sameShape h h'"
  shows "GetValidMoves h' b pos = GetValidMoves h b pos"
  unfolding GetValidMoves_def sameShape_GetPiece [OF s] sameShape_Color [OF s]
    sameShape_IsValidMove [OF s] ..

lemma sameShape_isInCheck:
  assumes s: "sameShape h h'"
  shows "isInCheck h' g player = isInCheck h g player"
  unfolding isInCheck_def sameShape_GetPiece [OF s] sameShape_Color [OF s]
    sameShape_Type [OF s] sameShape_IsValidMove [OF s] sameShape_Board [OF s] ..

section \<open>What the board operations write\<close>

lemma SetPiece_pieces: "pieces (SetPiece h b pos v) = pieces h"
  by (simp add: SetPiece_def setSquare_def)

lemma SetPiece_games: "games (SetPiece h b pos v) = games h"
  by (simp add: SetPiece_def setSquare_def)

lemma SetPiece_boards:
  "boards (SetPiece h b pos v) =
     (if IsValid pos
      then (boards h)[b := (boards h ! b)
             \<lparr>squares := (squares (boards h ! b))((Row pos, Col pos) := v)\<rparr>]
      else boards h)"
  by (simp add: SetPiece_def setSquare_def)

lemma SetPiece_length: "length (boards (SetPiece h b pos v)) = length (boards h)"
  by (simp add: SetPiece_boards)

lemma markMoved_Type: "Type ((xs[p := (xs ! p)\<lparr>HasMoved := True\<rparr>]) ! q) = Type (xs ! q)"
proof (cases "p < length xs")
  case True
  then show ?thesis by (cases "p = q") simp_all
next
  case False
  then have "xs[p := (xs ! p)\<lparr>HasMoved := True\<rparr>] = xs"
    by (intro list_update_beyond) simp
  then show ?thesis by (simp only:)
qed

lemma markMoved_Color: "Color ((xs[p := (xs ! p)\<lparr>HasMoved := True\<rparr>]) ! q) = Color (xs ! q)"
proof (cases "p < length xs")
  case True
  then show ?thesis by (cases "p = q") simp_all
next
  case False
  then have "xs[p := (xs ! p)\<lparr>HasMoved := True\<rparr>] = xs"
    by (intro list_update_beyond) simp
  then show ?thesis by (simp only:)
qed

lemma MovePiece_games: "games (snd (MovePiece h b from to)) = games h"
  by (simp add: MovePiece_def Let_def SetPiece_games split: option.splits)

lemma MovePiece_Type: "Type (pieces (snd (MovePiece h b from to)) ! q) = Type (pieces h ! q)"
  by (simp add: MovePiece_def Let_def SetPiece_pieces markMoved_Type split: option.splits)

lemma MovePiece_Color: "Color (pieces (snd (MovePiece h b from to)) ! q) = Color (pieces h ! q)"
  by (simp add: MovePiece_def Let_def SetPiece_pieces markMoved_Color split: option.splits)

lemma MovePiece_pieces_length:
  "length (pieces (snd (MovePiece h b from to))) = length (pieces h)"
  by (simp add: MovePiece_def Let_def SetPiece_pieces split: option.splits)

lemma MovePiece_boards:
  "boards (snd (MovePiece h b from to)) =
     (if IsValid from \<and> IsValid to \<and> GetPiece h b from \<noteq> None
      then boards (SetPiece (SetPiece h b to (GetPiece h b from)) b from None)
      else boards h)"
  by (auto simp: MovePiece_def Let_def split: option.splits)

lemma MovePiece_boards_cong:
  assumes "boards h' = boards h"
  shows "boards (snd (MovePiece h' b from to)) = boards (snd (MovePiece h b from to))"
  unfolding MovePiece_boards SetPiece_boards GetPiece_def assms ..

lemma sameShape_MovePiece:
  assumes s: "sameShape h h'"
  shows "sameShape (snd (MovePiece h b from to)) (snd (MovePiece h' b from to))"
  unfolding sameShape_def
proof (intro conjI allI)
  show "boards (snd (MovePiece h' b from to)) = boards (snd (MovePiece h b from to))"
    using s by (intro MovePiece_boards_cong) (simp add: sameShape_def)
  show "Board (games (snd (MovePiece h' b from to)) ! g)
          = Board (games (snd (MovePiece h b from to)) ! g)" for g
    using s by (simp add: MovePiece_games sameShape_def)
  show "Type (pieces (snd (MovePiece h' b from to)) ! p)
          = Type (pieces (snd (MovePiece h b from to)) ! p)" for p
    using s by (simp add: MovePiece_Type sameShape_def)
  show "Color (pieces (snd (MovePiece h' b from to)) ! p)
          = Color (pieces (snd (MovePiece h b from to)) ! p)" for p
    using s by (simp add: MovePiece_Color sameShape_def)
qed

lemma SetPiece_boards_dangling:
  "\<not> b < length (boards h) \<Longrightarrow> boards (SetPiece h b pos v) = boards h"
  by (simp add: SetPiece_boards not_less list_update_beyond)

lemma MovePiece_boards_dangling:
  "\<not> b < length (boards h) \<Longrightarrow> boards (snd (MovePiece h b from to)) = boards h"
  by (simp add: MovePiece_boards SetPiece_boards_dangling SetPiece_length)

text \<open>
  One pass of the loop of \<^verbatim>\<open>hasValidMoves\<close>: after the move is made and undone, the
  boards and the games are as before. Only the \<^verbatim>\<open>HasMoved\<close> flag of the piece may
  have changed.
\<close>

lemma squares_restored:
  assumes "x \<noteq> y" and "sq x = Some p"
  shows "sq(y := Some p, x := None, x := Some p, y := None, y := sq y) = sq"
  using assms by (auto simp: fun_eq_iff)

lemma try_undo_boards:
  assumes f: "IsValid from" and t: "IsValid to" and ne: "from \<noteq> to"
    and p: "GetPiece h b from = Some piece"
  shows "boards (SetPiece (snd (MovePiece (snd (MovePiece h b from to)) b to from)) b to
           (GetPiece h b to)) = boards h"
proof (cases "b < length (boards h)")
  case False
  then have "\<not> b < length (boards (snd (MovePiece h b from to)))"
    by (simp add: MovePiece_boards_dangling)
  then have "\<not> b < length (boards (snd (MovePiece (snd (MovePiece h b from to)) b to from)))"
    by (simp add: MovePiece_boards_dangling)
  then show ?thesis
    using False by (simp add: SetPiece_boards_dangling MovePiece_boards_dangling)
next
  case True
  have ne': "(Row from, Col from) \<noteq> (Row to, Col to)"
    using ne by (cases "from"; cases "to"; simp)
  let ?sq = "squares (boards h ! b)"
  have sqf: "?sq (Row from, Col from) = Some piece"
    using p f by (simp add: GetPiece_def)
  let ?h1 = "snd (MovePiece h b from to)"
  have b1: "boards ?h1 = (boards h)[b := (boards h ! b)
              \<lparr>squares := ?sq((Row to, Col to) := Some piece, (Row from, Col from) := None)\<rparr>]"
    using f t p True by (simp add: MovePiece_boards SetPiece_boards)
  have g1: "GetPiece ?h1 b to = Some piece"
    using t True ne' by (auto simp: GetPiece_def b1)
  have b2: "boards (snd (MovePiece ?h1 b to from)) = (boards h)[b := (boards h ! b)
              \<lparr>squares := ?sq((Row to, Col to) := Some piece, (Row from, Col from) := None,
                   (Row from, Col from) := Some piece, (Row to, Col to) := None)\<rparr>]"
    using f t g1 True by (simp add: MovePiece_boards SetPiece_boards b1)
  have "boards (SetPiece (snd (MovePiece ?h1 b to from)) b to (GetPiece h b to))
          = (boards h)[b := (boards h ! b)
              \<lparr>squares := ?sq((Row to, Col to) := Some piece, (Row from, Col from) := None,
                   (Row from, Col from) := Some piece, (Row to, Col to) := None,
                   (Row to, Col to) := ?sq (Row to, Col to))\<rparr>]"
    using t True by (simp add: SetPiece_boards b2 GetPiece_def)
  also have "\<dots> = (boards h)[b := (boards h ! b)\<lparr>squares := ?sq\<rparr>]"
    by (simp only: squares_restored
        [of "(Row from, Col from)" "(Row to, Col to)" "squares (boards h ! b)" piece,
          OF ne' sqf])
  also have "\<dots> = boards h"
    by simp
  finally show ?thesis .
qed

lemma try_undo_sameShape:
  assumes "IsValid from" and "IsValid to" and "from \<noteq> to"
    and "GetPiece h b from = Some piece"
  shows "sameShape h (SetPiece (snd (MovePiece (snd (MovePiece h b from to)) b to from)) b to
           (GetPiece h b to))"
  unfolding sameShape_def
  by (simp add: try_undo_boards [OF assms] SetPiece_games SetPiece_pieces MovePiece_games
      MovePiece_Type MovePiece_Color)

lemma try_undo_games:
  "games (SetPiece (snd (MovePiece (snd (MovePiece h b from to)) b to from)) b to v) = games h"
  by (simp add: SetPiece_games MovePiece_games)

section \<open>What \<^verbatim>\<open>hasValidMoves\<close> computes\<close>

lemma allPositions_set: "pos \<in> set allPositions \<longleftrightarrow> IsValid pos"
proof -
  have eq: "set allPositions = (\<Union>row\<in>{0..7}. (\<lambda>col. NewPosition row col) ` {0..7})"
    unfolding allPositions_def by (simp only: set_concat set_map set_upto image_image)
  show ?thesis
  proof
    assume "pos \<in> set allPositions"
    then obtain row col where "row \<in> {0..7}" "col \<in> {0..7::int}" "pos = NewPosition row col"
      unfolding eq by blast
    then show "IsValid pos"
      by (simp add: IsValid_def NewPosition_def)
  next
    assume "IsValid pos"
    then have "Row pos \<in> {0..7}" "Col pos \<in> {0..7}"
      by (simp_all add: IsValid_def)
    moreover have "pos = NewPosition (Row pos) (Col pos)"
      by (simp add: NewPosition_def)
    ultimately show "pos \<in> set allPositions"
      unfolding eq by blast
  qed
qed

lemma GetPiece_valid: "GetPiece h b pos = Some piece \<Longrightarrow> IsValid pos"
  by (simp add: GetPiece_def split: if_splits)

lemma IsValidMove_distinct:
  assumes "IsValidMove h b move player"
  shows "From move \<noteq> To move"
proof
  assume e: "From move = To move"
  show False
  proof (cases "GetPiece h b (From move)")
    case None
    then show False using assms by (simp add: IsValidMove_def)
  next
    case (Some piece)
    then have "GetPiece h b (To move) = Some piece" using e by simp
    then show False using assms Some by (simp add: IsValidMove_def split: if_splits)
  qed
qed

lemma IsValidMove_from: "IsValidMove h b move player \<Longrightarrow> GetPiece h b (From move) \<noteq> None"
  by (auto simp: IsValidMove_def split: option.splits)

lemma GetValidMoves_member:
  assumes "move \<in> set (GetValidMoves h b pos)"
  shows "From move = pos \<and> IsValid (From move) \<and> IsValid (To move) \<and> From move \<noteq> To move
           \<and> GetPiece h b (From move) \<noteq> None"
proof -
  obtain piece where p: "GetPiece h b pos = Some piece"
    using assms by (cases "GetPiece h b pos") (simp_all add: GetValidMoves_def)
  then obtain to where m: "move = NewMove pos to" and t: "to \<in> set allPositions"
    and v: "IsValidMove h b move (Color (pieces h ! piece))"
    using assms by (auto simp: GetValidMoves_def)
  have "From move = pos" "To move = to"
    using m by (simp_all add: NewMove_def)
  then show ?thesis
    using p t v GetPiece_valid [OF p] IsValidMove_distinct [OF v]
    by (simp add: allPositions_set)
qed

lemma tryMoves_spec:
  assumes "sameShape h0 h"
    and "\<forall>m\<in>set moves. IsValid (From m) \<and> IsValid (To m) \<and> From m \<noteq> To m
           \<and> GetPiece h0 (Board (games h0 ! g)) (From m) \<noteq> None"
  shows "sameShape h0 (snd (tryMoves h g player moves))
         \<and> games (snd (tryMoves h g player moves)) = games h
         \<and> fst (tryMoves h g player moves) =
             list_ex (\<lambda>m. \<not> isInCheck
                (snd (MovePiece h0 (Board (games h0 ! g)) (From m) (To m))) g player) moves"
  using assms
proof (induction moves arbitrary: h)
  case Nil
  then show ?case by simp
next
  case (Cons move moves)
  let ?b = "Board (games h0 ! g)"
  have b: "Board (games h ! g) = ?b"
    using Cons.prems(1) by (rule sameShape_Board)
  have gp: "GetPiece h ?b = GetPiece h0 ?b"
    using Cons.prems(1) by (rule sameShape_GetPiece)
  have good: "IsValid (From move)" "IsValid (To move)" "From move \<noteq> To move"
    and "GetPiece h0 ?b (From move) \<noteq> None"
    using Cons.prems(2) by simp_all
  then obtain piece where p: "GetPiece h ?b (From move) = Some piece"
    using gp by auto
  let ?h1 = "snd (MovePiece h ?b (From move) (To move))"
  let ?h3 = "SetPiece (snd (MovePiece ?h1 ?b (To move) (From move))) ?b (To move)
               (GetPiece h ?b (To move))"
  have check: "isInCheck ?h1 g player
                 = isInCheck (snd (MovePiece h0 ?b (From move) (To move))) g player"
    by (rule sameShape_isInCheck) (rule sameShape_MovePiece [OF Cons.prems(1)])
  have "sameShape h ?h3"
    using good p by (intro try_undo_sameShape)
  then have s3: "sameShape h0 ?h3"
    using Cons.prems(1) by (rule sameShape_trans [rotated])
  have g3: "games ?h3 = games h"
    by (rule try_undo_games)
  have step: "tryMoves h g player (move # moves) =
      (if \<not> isInCheck ?h1 g player then (True, ?h3) else tryMoves ?h3 g player moves)"
    by (simp add: Let_def b)
  show ?case
  proof (cases "isInCheck ?h1 g player")
    case False
    then show ?thesis
      using s3 g3 check unfolding step by simp
  next
    case True
    have "\<forall>m\<in>set moves. IsValid (From m) \<and> IsValid (To m) \<and> From m \<noteq> To m
           \<and> GetPiece h0 ?b (From m) \<noteq> None"
      using Cons.prems(2) by simp
    from Cons.IH [OF s3 this] True g3 check show ?thesis
      unfolding step by simp
  qed
qed

lemma scanSquares_spec:
  assumes "sameShape h0 h"
  shows "sameShape h0 (snd (scanSquares h g player ps))
         \<and> games (snd (scanSquares h g player ps)) = games h
         \<and> fst (scanSquares h g player ps) =
             list_ex (\<lambda>pos.
                (case GetPiece h0 (Board (games h0 ! g)) pos of
                   None \<Rightarrow> False
                 | Some piece \<Rightarrow> Color (pieces h0 ! piece) = player)
                \<and> list_ex (\<lambda>m. \<not> isInCheck
                      (snd (MovePiece h0 (Board (games h0 ! g)) (From m) (To m))) g player)
                    (GetValidMoves h0 (Board (games h0 ! g)) pos)) ps"
  using assms
proof (induction ps arbitrary: h)
  case Nil
  then show ?case by simp
next
  case (Cons pos ps)
  let ?b = "Board (games h0 ! g)"
  have b: "Board (games h ! g) = ?b"
    using Cons.prems by (rule sameShape_Board)
  have gp: "GetPiece h ?b = GetPiece h0 ?b"
    using Cons.prems by (rule sameShape_GetPiece)
  have col: "Color (pieces h ! p) = Color (pieces h0 ! p)" for p
    using Cons.prems by (rule sameShape_Color)
  have gv: "GetValidMoves h ?b pos = GetValidMoves h0 ?b pos"
    using Cons.prems by (rule sameShape_GetValidMoves)
  show ?case
  proof (cases "GetPiece h0 ?b pos")
    case None
    then show ?thesis
      using Cons.IH [OF Cons.prems] by (simp add: b gp)
  next
    case (Some piece)
    show ?thesis
    proof (cases "Color (pieces h0 ! piece) = player")
      case False
      then show ?thesis
        using Cons.IH [OF Cons.prems] Some by (simp add: b gp col)
    next
      case True
      let ?moves = "GetValidMoves h0 ?b pos"
      have "\<forall>m\<in>set ?moves. IsValid (From m) \<and> IsValid (To m) \<and> From m \<noteq> To m
              \<and> GetPiece h0 ?b (From m) \<noteq> None"
        using GetValidMoves_member by blast
      from tryMoves_spec [OF Cons.prems this, of player]
      have t1: "sameShape h0 (snd (tryMoves h g player ?moves))"
        and t2: "games (snd (tryMoves h g player ?moves)) = games h"
        and t3: "fst (tryMoves h g player ?moves) =
             list_ex (\<lambda>m. \<not> isInCheck (snd (MovePiece h0 ?b (From m) (To m))) g player) ?moves"
        by simp_all
      have step: "scanSquares h g player (pos # ps) =
          (if fst (tryMoves h g player ?moves) then (True, snd (tryMoves h g player ?moves))
           else scanSquares (snd (tryMoves h g player ?moves)) g player ps)"
        using Some True by (simp add: b gp col gv case_prod_beta)
      show ?thesis
      proof (cases "fst (tryMoves h g player ?moves)")
        case True
        then show ?thesis
          using t1 t2 t3 Some \<open>Color (pieces h0 ! piece) = player\<close> unfolding step by simp
      next
        case False
        with Cons.IH [OF t1] t2 t3 Some \<open>Color (pieces h0 ! piece) = player\<close> show ?thesis
          unfolding step by simp
      qed
    qed
  qed
qed

lemma bex_GetValidMoves:
  assumes "GetPiece h b pos = Some piece"
  shows "(\<exists>m\<in>set (GetValidMoves h b pos). P m) \<longleftrightarrow>
           (\<exists>to\<in>set allPositions. IsValidMove h b (NewMove pos to) (Color (pieces h ! piece))
                            \<and> P (NewMove pos to))"
  using assms by (auto simp: GetValidMoves_def)

lemma hasValidMoves_spec:
  "sameShape h (snd (hasValidMoves h g player))
   \<and> games (snd (hasValidMoves h g player)) = games h
   \<and> fst (hasValidMoves h g player) = hasLegalMove h g player"
proof -
  let ?b = "Board (games h ! g)"
  have "list_ex (\<lambda>pos.
            (case GetPiece h ?b pos of
               None \<Rightarrow> False
             | Some piece \<Rightarrow> Color (pieces h ! piece) = player)
            \<and> list_ex (\<lambda>m. \<not> isInCheck (snd (MovePiece h ?b (From m) (To m))) g player)
                (GetValidMoves h ?b pos)) allPositions
        = hasLegalMove h g player"
    unfolding hasLegalMove_def list_ex_iff [of _ allPositions]
    by (rule bex_cong [OF refl])
      (auto simp: list_ex_iff bex_GetValidMoves NewMove_def split: option.splits)
  then show ?thesis
    using scanSquares_spec [OF sameShape_refl, of h g player allPositions]
    by (simp add: hasValidMoves_def)
qed

lemma sameShape_hasLegalMove:
  assumes s: "sameShape h h'"
  shows "hasLegalMove h' g player = hasLegalMove h g player"
proof -
  have m: "isInCheck (snd (MovePiece h' b from to)) g player
             = isInCheck (snd (MovePiece h b from to)) g player" for b "from" to
    by (rule sameShape_isInCheck) (rule sameShape_MovePiece [OF s])
  show ?thesis
    unfolding hasLegalMove_def sameShape_GetPiece [OF s] sameShape_Color [OF s]
      sameShape_IsValidMove [OF s] sameShape_Board [OF s] m ..
qed

section \<open>The state after a move\<close>

lemma setState_sameShape: "sameShape h (setState h g s)"
proof (cases "g < length (games h)")
  case True
  have "Board (((games h)[g := (games h ! g)\<lparr>State := s\<rparr>]) ! g') = Board (games h ! g')" for g'
    using True by (cases "g = g'") simp_all
  then show ?thesis by (simp add: sameShape_def setState_def)
next
  case False
  then have "(games h)[g := (games h ! g)\<lparr>State := s\<rparr>] = games h"
    by (intro list_update_beyond) simp
  then show ?thesis by (simp add: sameShape_def setState_def)
qed

lemma setState_State: "g < length (games h) \<Longrightarrow> State (games (setState h g s) ! g) = s"
  by (simp add: setState_def)

lemma setState_CurrentPlayer:
  "g < length (games h) \<Longrightarrow>
     CurrentPlayer (games (setState h g s) ! g) = CurrentPlayer (games h ! g)"
  by (simp add: setState_def)

lemma updateGameState_eq:
  "updateGameState h g =
     setState (snd (hasValidMoves h g (CurrentPlayer (games h ! g)))) g
       (classify (isInCheck h g (CurrentPlayer (games h ! g)))
          (hasLegalMove h g (CurrentPlayer (games h ! g))))"
proof -
  have "fst (hasValidMoves h g (CurrentPlayer (games h ! g)))
          = hasLegalMove h g (CurrentPlayer (games h ! g))"
    using hasValidMoves_spec by blast
  then show ?thesis
    by (simp add: updateGameState_def classify_def Let_def case_prod_beta)
qed

lemma updateGameState_spec:
  assumes "g < length (games h)"
  shows "State (games (updateGameState h g) ! g) =
           classify (isInCheck h g (CurrentPlayer (games h ! g)))
             (hasLegalMove h g (CurrentPlayer (games h ! g)))"
    and "CurrentPlayer (games (updateGameState h g) ! g) = CurrentPlayer (games h ! g)"
    and "sameShape h (updateGameState h g)"
proof -
  let ?p = "CurrentPlayer (games h ! g)"
  let ?hv = "snd (hasValidMoves h g ?p)"
  have gv: "games ?hv = games h" and sv: "sameShape h ?hv"
    using hasValidMoves_spec by blast+
  have len: "g < length (games ?hv)"
    using assms gv by simp
  show "State (games (updateGameState h g) ! g) =
           classify (isInCheck h g ?p) (hasLegalMove h g ?p)"
    unfolding updateGameState_eq by (rule setState_State [OF len])
  show "CurrentPlayer (games (updateGameState h g) ! g) = ?p"
    unfolding updateGameState_eq using setState_CurrentPlayer [OF len] gv by simp
  show "sameShape h (updateGameState h g)"
    unfolding updateGameState_eq by (rule sameShape_trans [OF sv setState_sameShape])
qed

text \<open>
  C2. After a move that \<^verbatim>\<open>MakeMove\<close> has applied, the state of the game is the
  classification of the position for the side now to move: Check when that side is in
  check and has a legal move, Checkmate when it is in check and has none, Stalemate
  when it is not in check and has none, Playing otherwise. "In check" and "has a legal
  move" are read on the store after the call.
\<close>

theorem MakeMove_state_classified:
  assumes "g < length (games h)" and "fst (MakeMove h g from to) = None"
  shows "State (games (snd (MakeMove h g from to)) ! g) =
           classify
             (isInCheck (snd (MakeMove h g from to)) g
                (CurrentPlayer (games (snd (MakeMove h g from to)) ! g)))
             (hasLegalMove (snd (MakeMove h g from to)) g
                (CurrentPlayer (games (snd (MakeMove h g from to)) ! g)))"
proof -
  obtain h3 where mk: "snd (MakeMove h g from to) = updateGameState h3 g"
    and len: "length (games h3) = length (games h)"
    using assms(2)
    by (auto simp: MakeMove_def Let_def MovePiece_games split: sum.splits if_splits)
  have g3: "g < length (games h3)"
    using assms(1) len by simp
  note u = updateGameState_spec [OF g3]
  show ?thesis
    unfolding mk u(2)
    by (simp only: u(1) sameShape_isInCheck [OF u(3)] sameShape_hasLegalMove [OF u(3)])
qed

theorem MakeMove_state_classified_witness:
  "fst (MakeMove initialHeap 0 ''e2'' ''e4'') = None
   \<and> State (games (snd (MakeMove initialHeap 0 ''e2'' ''e4'')) ! 0) = Playing
   \<and> \<not> isInCheck (snd (MakeMove initialHeap 0 ''e2'' ''e4'')) 0 Black
   \<and> hasLegalMove (snd (MakeMove initialHeap 0 ''e2'' ''e4'')) 0 Black
   \<and> fst (MakeMove mateInOne 0 ''a2'' ''a1'') = None
   \<and> State (games (snd (MakeMove mateInOne 0 ''a2'' ''a1'')) ! 0) = Checkmate
   \<and> isInCheck (snd (MakeMove mateInOne 0 ''a2'' ''a1'')) 0 White
   \<and> \<not> hasLegalMove (snd (MakeMove mateInOne 0 ''a2'' ''a1'')) 0 White"
proof -
  let ?h = "snd (MakeMove initialHeap 0 ''e2'' ''e4'')"
  have a: "0 < length (games initialHeap)" by code_simp
  have b: "fst (MakeMove initialHeap 0 ''e2'' ''e4'') = None" by code_simp
  have c: "CurrentPlayer (games ?h ! 0) = Black" by code_simp
  have d: "\<not> isInCheck ?h 0 Black" by code_simp
  have e: "hasLegalMove ?h 0 Black" by code_simp
  have "State (games ?h ! 0) = classify (isInCheck ?h 0 Black) (hasLegalMove ?h 0 Black)"
    using MakeMove_state_classified [OF a b] unfolding c .
  then have playing: "State (games ?h ! 0) = Playing"
    using d e by (simp add: classify_def)
  let ?m = "snd (MakeMove mateInOne 0 ''a2'' ''a1'')"
  have a': "0 < length (games mateInOne)" by code_simp
  have b': "fst (MakeMove mateInOne 0 ''a2'' ''a1'') = None" by code_simp
  have c': "CurrentPlayer (games ?m ! 0) = White" by code_simp
  have d': "isInCheck ?m 0 White" by code_simp
  have e': "\<not> hasLegalMove ?m 0 White" by code_simp
  have "State (games ?m ! 0) = classify (isInCheck ?m 0 White) (hasLegalMove ?m 0 White)"
    using MakeMove_state_classified [OF a' b'] unfolding c' .
  then have mate: "State (games ?m ! 0) = Checkmate"
    using d' e' by (simp add: classify_def)
  show ?thesis
    using b d e playing b' d' e' mate by blast
qed

section \<open>The frame of \<^verbatim>\<open>hasValidMoves\<close>\<close>

text \<open>
  C3. In the initial position the pawn on a2 has not moved. After \<^verbatim>\<open>hasValidMoves\<close>
  for White the square a2 holds the same piece, and its \<^verbatim>\<open>HasMoved\<close> flag is set:
  the move a2-a4 was tried and undone with \<^verbatim>\<open>MovePiece\<close>, which marks the piece each
  time. The boards and games themselves, and the kind and colour of every piece, are
  as before (lemma \<open>hasValidMoves_spec\<close>).
\<close>

theorem hasValidMoves_marks_piece:
  "GetPiece initialHeap 0 \<lparr>Row = 6, Col = 0\<rparr> = Some 8
   \<and> pieces initialHeap ! 8 = \<lparr>Type = Pawn, Color = White, HasMoved = False\<rparr>
   \<and> GetPiece (snd (hasValidMoves initialHeap 0 White)) 0 \<lparr>Row = 6, Col = 0\<rparr> = Some 8
   \<and> pieces (snd (hasValidMoves initialHeap 0 White)) ! 8
        = \<lparr>Type = Pawn, Color = White, HasMoved = True\<rparr>"
  by code_simp

section \<open>A node without moves\<close>

text \<open>
  C8, as amended: when the side to move has no valid move, the node is searched
  (depth above 0, state Playing) and the transposition-table lookup at the head of
  \<^verbatim>\<open>minimax\<close> does not return, the score is the mate score \<open>\<minus>(1000 \<minus> ply)\<close> for the
  maximizing side and \<open>1000 \<minus> ply\<close> for the minimizing side when the side to move is in
  check, and 0 when it is not; the store and the engine are unchanged.
\<close>

theorem minimax_no_moves:
  assumes "depth > 0"
    and "State (games h ! game) = Playing"
    and "getAllPossibleMoves h game = []"
    and "probe ai (hashPosition h game) depth alpha beta = Inr (alpha0, beta0)"
  shows "minimax heuristic sortSlice h ai game depth isMaximizing alpha beta ply =
           ((if isInCheck h game (CurrentPlayer (games h ! game)) then
               (if isMaximizing then Finite (- (1000 - real ply)) else Finite (1000 - real ply))
             else Finite 0), h, ai)"
  using assms by (subst minimax.simps) (simp add: Let_def)

theorem minimax_no_moves_witness:
  "minimax flatHeuristic keepOrder (cornered Playing) (NewAI White 2) 0 1 True NegInf PosInf 1
     = (Finite (- (1000 - real (1::nat))), cornered Playing, NewAI White 2)
   \<and> minimax flatHeuristic keepOrder (cornered Playing) (NewAI White 2) 0 1 False NegInf PosInf 1
     = (Finite (1000 - real (1::nat)), cornered Playing, NewAI White 2)"
proof -
  have a: "(1::nat) > 0" by simp
  have b: "State (games (cornered Playing) ! 0) = Playing" by code_simp
  have c: "getAllPossibleMoves (cornered Playing) 0 = []" by code_simp
  have d: "probe (NewAI White 2) (hashPosition (cornered Playing) 0) 1 NegInf PosInf
             = Inr (NegInf, PosInf)"
    by (simp add: probe_def NewAI_def)
  have e: "isInCheck (cornered Playing) 0 (CurrentPlayer (games (cornered Playing) ! 0))"
    by code_simp
  show ?thesis
    using minimax_no_moves [OF a b c d, of flatHeuristic keepOrder True 1]
      minimax_no_moves [OF a b c d, of flatHeuristic keepOrder False 1] e
    by simp
qed

text \<open>
  C8 as stated fails when the table answers first. The position \<open>cornered\<close> is searched
  once while its game is marked Checkmate, which stores the leaf score \<open>\<minus>1000\<close> at depth 1;
  searched again at depth 1 and ply 1 with the state Playing, White has no move and is
  in check, and the score returned is the stored \<open>\<minus>1000\<close>, not \<open>\<minus>(1000 \<minus> 1)\<close>.
\<close>

theorem minimax_no_moves_counterexample:
  "State (games (cornered Playing) ! 0) = Playing
   \<and> getAllPossibleMoves (cornered Playing) 0 = []
   \<and> isInCheck (cornered Playing) 0 White
   \<and> fst (minimax flatHeuristic keepOrder (cornered Playing)
            (snd (snd (minimax flatHeuristic keepOrder (cornered Checkmate) (NewAI White 2)
                         0 1 True NegInf PosInf 1)))
            0 1 True NegInf PosInf 1) = Finite (- 1000)
   \<and> Finite (- 1000) \<noteq> Finite (- (1000 - real (1::nat)))"
  by code_simp

section \<open>Writes stay above the marks\<close>

lemma unchangedBelow_refl: "unchangedBelow np nb ng h h"
  by (simp add: unchangedBelow_def)

lemma unchangedBelow_trans:
  "unchangedBelow np nb ng h h' \<Longrightarrow> unchangedBelow np nb ng h' h''
     \<Longrightarrow> unchangedBelow np nb ng h h''"
  by (simp add: unchangedBelow_def)

lemma setSquare_unchangedBelow:
  "nb \<le> b \<Longrightarrow> unchangedBelow np nb ng h (setSquare h b i j v)"
  by (simp add: unchangedBelow_def setSquare_def)

lemma SetPiece_unchangedBelow:
  "nb \<le> b \<Longrightarrow> unchangedBelow np nb ng h (SetPiece h b pos v)"
  by (simp add: SetPiece_def setSquare_unchangedBelow unchangedBelow_refl)

lemma setSquare_squares:
  "squares (boards (setSquare h b i j v) ! b) pos = Some piece
     \<Longrightarrow> squares (boards h ! b) pos = Some piece \<or> v = Some piece"
proof (cases "b < length (boards h)")
  case True
  assume "squares (boards (setSquare h b i j v) ! b) pos = Some piece"
  then show ?thesis
    using True by (simp add: setSquare_def split: if_splits)
next
  case False
  then have "(boards h)[b := (boards h ! b)
      \<lparr>squares := (squares (boards h ! b))((i, j) := v)\<rparr>] = boards h"
    by (intro list_update_beyond) simp
  moreover assume "squares (boards (setSquare h b i j v) ! b) pos = Some piece"
  ultimately show ?thesis by (simp add: setSquare_def)
qed

lemma setSquare_boardAbove:
  assumes "boardAbove np h b" and "\<And>piece. v = Some piece \<Longrightarrow> np \<le> piece"
  shows "boardAbove np (setSquare h b i j v) b"
  unfolding boardAbove_def
proof (intro allI impI)
  fix pos piece
  assume "squares (boards (setSquare h b i j v) ! b) pos = Some piece"
  then have "squares (boards h ! b) pos = Some piece \<or> v = Some piece"
    by (rule setSquare_squares)
  then show "np \<le> piece"
    using assms unfolding boardAbove_def by blast
qed

lemma SetPiece_boardAbove:
  assumes "boardAbove np h b" and "\<And>piece. v = Some piece \<Longrightarrow> np \<le> piece"
  shows "boardAbove np (SetPiece h b pos v) b"
  using assms by (simp add: SetPiece_def setSquare_boardAbove)

lemma GetPiece_above:
  "boardAbove np h b \<Longrightarrow> GetPiece h b pos = Some piece \<Longrightarrow> np \<le> piece"
  by (auto simp: boardAbove_def GetPiece_def split: if_splits)

lemma boardAbove_pieces_update:
  "boardAbove np (h\<lparr>pieces := ps\<rparr>) b = boardAbove np h b"
  by (simp add: boardAbove_def)

lemma MovePiece_unchangedBelow:
  assumes a: "boardAbove np h b" and b: "nb \<le> b"
  shows "unchangedBelow np nb ng h (snd (MovePiece h b from to))"
proof (cases "IsValid from \<and> IsValid to \<and> GetPiece h b from \<noteq> None")
  case False
  then show ?thesis
    by (auto simp: MovePiece_def unchangedBelow_refl split: option.splits)
next
  case True
  then obtain piece where p: "GetPiece h b from = Some piece" by auto
  have "np \<le> piece" using a p by (rule GetPiece_above)
  then show ?thesis
    using True p b
    by (simp add: MovePiece_def Let_def unchangedBelow_def SetPiece_pieces SetPiece_games
        SetPiece_boards)
qed

lemma MovePiece_boardAbove:
  assumes a: "boardAbove np h b"
  shows "boardAbove np (snd (MovePiece h b from to)) b"
proof (cases "IsValid from \<and> IsValid to \<and> GetPiece h b from \<noteq> None")
  case False
  then show ?thesis
    using a by (auto simp: MovePiece_def split: option.splits)
next
  case True
  then obtain piece where p: "GetPiece h b from = Some piece" by auto
  have "np \<le> piece" using a p by (rule GetPiece_above)
  then have "boardAbove np (SetPiece (SetPiece h b to (Some piece)) b from None) b"
    using a by (intro SetPiece_boardAbove) simp_all
  then show ?thesis
    using True p by (simp add: MovePiece_def Let_def boardAbove_pieces_update)
qed

lemma tryMoves_above:
  assumes "boardAbove np h (Board (games h ! g))" and "nb \<le> Board (games h ! g)"
  shows "unchangedBelow np nb ng h (snd (tryMoves h g player moves))
         \<and> boardAbove np (snd (tryMoves h g player moves)) (Board (games h ! g))
         \<and> games (snd (tryMoves h g player moves)) = games h"
  using assms
proof (induction moves arbitrary: h)
  case Nil
  then show ?case by (simp add: unchangedBelow_refl)
next
  case (Cons move moves)
  let ?b = "Board (games h ! g)"
  let ?h1 = "snd (MovePiece h ?b (From move) (To move))"
  let ?h2 = "snd (MovePiece ?h1 ?b (To move) (From move))"
  let ?h3 = "SetPiece ?h2 ?b (To move) (GetPiece h ?b (To move))"
  have a1: "boardAbove np ?h1 ?b"
    using Cons.prems(1) by (rule MovePiece_boardAbove)
  have a2: "boardAbove np ?h2 ?b"
    using a1 by (rule MovePiece_boardAbove)
  have u1: "unchangedBelow np nb ng h ?h1"
    using Cons.prems by (rule MovePiece_unchangedBelow)
  have u2: "unchangedBelow np nb ng ?h1 ?h2"
    using a1 Cons.prems(2) by (rule MovePiece_unchangedBelow)
  have u3: "unchangedBelow np nb ng ?h2 ?h3"
    using Cons.prems(2) by (rule SetPiece_unchangedBelow)
  have a3: "boardAbove np ?h3 ?b"
    using a2 GetPiece_above [OF Cons.prems(1)] by (intro SetPiece_boardAbove) simp_all
  have u: "unchangedBelow np nb ng h ?h3"
    using u1 u2 u3 by (blast intro: unchangedBelow_trans)
  have g3: "games ?h3 = games h"
    by (rule try_undo_games)
  have step: "tryMoves h g player (move # moves) =
      (if \<not> isInCheck ?h1 g player then (True, ?h3) else tryMoves ?h3 g player moves)"
    by (simp add: Let_def)
  show ?case
  proof (cases "isInCheck ?h1 g player")
    case False
    then show ?thesis using u a3 g3 unfolding step by simp
  next
    case True
    have "boardAbove np ?h3 (Board (games ?h3 ! g))" "nb \<le> Board (games ?h3 ! g)"
      using a3 Cons.prems(2) by (simp_all only: g3)
    from Cons.IH [OF this] True u show ?thesis
      unfolding step by (auto simp only: g3 if_False not_True_eq_False
          intro: unchangedBelow_trans)
  qed
qed

lemma scanSquares_above:
  assumes "boardAbove np h (Board (games h ! g))" and "nb \<le> Board (games h ! g)"
  shows "unchangedBelow np nb ng h (snd (scanSquares h g player ps))
         \<and> boardAbove np (snd (scanSquares h g player ps)) (Board (games h ! g))
         \<and> games (snd (scanSquares h g player ps)) = games h"
  using assms
proof (induction ps arbitrary: h)
  case Nil
  then show ?case by (simp add: unchangedBelow_refl)
next
  case (Cons pos ps)
  let ?b = "Board (games h ! g)"
  let ?t = "tryMoves h g player (GetValidMoves h ?b pos)"
  note t = tryMoves_above [OF Cons.prems, of ng player "GetValidMoves h ?b pos"]
  have g1: "games (snd ?t) = games h" using t by simp
  have "boardAbove np (snd ?t) (Board (games (snd ?t) ! g))" "nb \<le> Board (games (snd ?t) ! g)"
    using t Cons.prems(2) by (simp_all only: g1)
  note ih1 = Cons.IH [OF this]
  note ih0 = Cons.IH [OF Cons.prems]
  show ?case
  proof (cases "GetPiece h ?b pos")
    case None
    then show ?thesis using ih0 by simp
  next
    case (Some piece)
    show ?thesis
    proof (cases "Color (pieces h ! piece) = player")
      case False
      then show ?thesis using ih0 Some by simp
    next
      case True
      have step: "scanSquares h g player (pos # ps) =
          (if fst ?t then (True, snd ?t) else scanSquares (snd ?t) g player ps)"
        using Some True by (simp add: case_prod_beta)
      show ?thesis
      proof (cases "fst ?t")
        case True
        then show ?thesis using t unfolding step by simp
      next
        case False
        then show ?thesis
          using t ih1 unfolding step
          by (auto simp only: g1 if_False intro: unchangedBelow_trans)
      qed
    qed
  qed
qed

lemma setState_unchangedBelow: "ng \<le> g \<Longrightarrow> unchangedBelow np nb ng h (setState h g s)"
  by (simp add: unchangedBelow_def setState_def)

lemma updateGameState_unchangedBelow:
  assumes "boardAbove np h (Board (games h ! g))" and "nb \<le> Board (games h ! g)"
    and "ng \<le> g"
  shows "unchangedBelow np nb ng h (updateGameState h g)"
proof -
  let ?p = "CurrentPlayer (games h ! g)"
  have "unchangedBelow np nb ng h (snd (hasValidMoves h g ?p))"
    using scanSquares_above [OF assms(1,2), of ng ?p allPositions]
    by (simp add: hasValidMoves_def)
  moreover have "unchangedBelow np nb ng (snd (hasValidMoves h g ?p))
                   (setState (snd (hasValidMoves h g ?p)) g s)" for s
    using assms(3) by (rule setState_unchangedBelow)
  ultimately show ?thesis
    unfolding updateGameState_eq by (rule unchangedBelow_trans)
qed

lemma games_update_unchangedBelow:
  "ng \<le> g \<Longrightarrow> unchangedBelow np nb ng h (h\<lparr>games := (games h)[g := x]\<rparr>)"
  by (simp add: unchangedBelow_def)

lemma games_update_Board:
  assumes "Board x = Board (gs ! g)"
  shows "Board ((gs[g := x]) ! g) = Board (gs ! g)"
proof (cases "g < length gs")
  case True
  then show ?thesis using assms by simp
next
  case False
  then have "gs[g := x] = gs" by (intro list_update_beyond) simp
  then show ?thesis by simp
qed

lemma MakeMove_unchangedBelow:
  assumes a: "boardAbove np h (Board (games h ! g))" and b: "nb \<le> Board (games h ! g)"
    and g: "ng \<le> g"
  shows "unchangedBelow np nb ng h (snd (MakeMove h g from to))"
proof (cases "fst (MakeMove h g from to)")
  case (Some err)
  then have "snd (MakeMove h g from to) = h"
    by (auto simp: MakeMove_def Let_def split: sum.splits if_splits)
  then show ?thesis by (simp add: unchangedBelow_refl)
next
  case None
  then obtain fromPos toPos where
    mk: "snd (MakeMove h g from to) =
      updateGameState
        (let h1 = snd (MovePiece h (Board (games h ! g)) fromPos toPos);
             h2 = h1\<lparr>games := (games h1)[g := (games h1 ! g)
                    \<lparr>MoveHistory := MoveHistory (games h1 ! g) @ [NewMove fromPos toPos]\<rparr>]\<rparr>
         in h2\<lparr>games := (games h2)[g := (games h2 ! g)
                    \<lparr>CurrentPlayer :=
                       (if CurrentPlayer (games h2 ! g) = White then Black else White)\<rparr>]\<rparr>) g"
    by (auto simp: MakeMove_def Let_def NewMove_def split: sum.splits if_splits)
  let ?b = "Board (games h ! g)"
  define h1 where "h1 = snd (MovePiece h ?b fromPos toPos)"
  define h2 where "h2 = h1\<lparr>games := (games h1)[g := (games h1 ! g)
                    \<lparr>MoveHistory := MoveHistory (games h1 ! g) @ [NewMove fromPos toPos]\<rparr>]\<rparr>"
  define h3 where "h3 = h2\<lparr>games := (games h2)[g := (games h2 ! g)
                    \<lparr>CurrentPlayer :=
                       (if CurrentPlayer (games h2 ! g) = White then Black else White)\<rparr>]\<rparr>"
  have mk': "snd (MakeMove h g from to) = updateGameState h3 g"
    unfolding mk h3_def h2_def h1_def Let_def ..
  have u1: "unchangedBelow np nb ng h h1"
    unfolding h1_def using a b by (rule MovePiece_unchangedBelow)
  have a1: "boardAbove np h1 ?b"
    unfolding h1_def using a by (rule MovePiece_boardAbove)
  have g1: "games h1 = games h"
    unfolding h1_def by (rule MovePiece_games)
  have u2: "unchangedBelow np nb ng h1 h2"
    unfolding h2_def using g by (rule games_update_unchangedBelow)
  have u3: "unchangedBelow np nb ng h2 h3"
    unfolding h3_def using g by (rule games_update_unchangedBelow)
  have b2: "Board (games h2 ! g) = ?b"
    unfolding h2_def using g1 by (simp add: games_update_Board)
  have b3: "Board (games h3 ! g) = ?b"
    unfolding h3_def using b2 by (simp add: games_update_Board)
  have bd: "boards h3 = boards h1"
    unfolding h3_def h2_def by simp
  have a3: "boardAbove np h3 (Board (games h3 ! g))"
    using a1 unfolding b3 boardAbove_def bd .
  have "unchangedBelow np nb ng h3 (updateGameState h3 g)"
    using a3 b g unfolding b3 [symmetric] by (intro updateGameState_unchangedBelow)
  then show ?thesis
    unfolding mk' using u1 u2 u3 by (blast intro: unchangedBelow_trans)
qed

section \<open>The copy of a game is made of new objects\<close>

lemma fold_invariant:
  assumes "\<And>a x. P x \<Longrightarrow> P (f a x)" and "P x"
  shows "P (fold f xs x)"
  using assms(2) by (induction xs arbitrary: x) (simp_all add: assms(1))

lemma building_length: "building h gs x \<Longrightarrow> length (pieces h) \<le> length (pieces x)"
proof -
  assume "building h gs x"
  then have "length (take (length (pieces h)) (pieces x)) = length (pieces h)"
    by (simp add: building_def)
  then show ?thesis by simp
qed

lemma boardAbove_boards_cong:
  "boards x' = boards x \<Longrightarrow> boardAbove np x' b = boardAbove np x b"
  by (simp add: boardAbove_def)

lemma building_setSquare:
  assumes "building h gs x" and "\<And>piece. v = Some piece \<Longrightarrow> length (pieces h) \<le> piece"
  shows "building h gs (setSquare x (length (boards h)) i j v)"
proof -
  have "boardAbove (length (pieces h)) (setSquare x (length (boards h)) i j v) (length (boards h))"
    using assms by (intro setSquare_boardAbove) (simp_all add: building_def)
  then show ?thesis
    using assms(1) by (simp add: building_def setSquare_def)
qed

lemma building_place:
  assumes "building h gs x"
  shows "building h gs (place i j pieceType color (length (boards h)) x)"
proof -
  let ?x1 = "x\<lparr>pieces := pieces x @ [\<lparr>Type = pieceType, Color = color, HasMoved = False\<rparr>]\<rparr>"
  have len: "length (pieces h) \<le> length (pieces x)"
    using assms by (rule building_length)
  have "building h gs ?x1"
    using assms len by (simp add: building_def boardAbove_def)
  then have "building h gs (setSquare ?x1 (length (boards h)) i j (Some (length (pieces x))))"
    using len by (intro building_setSquare) simp_all
  then show ?thesis
    by (simp add: place_def NewPiece_def)
qed

lemma building_setupInitialPosition:
  assumes "building h gs x"
  shows "building h gs (setupInitialPosition x (length (boards h)))"
proof -
  let ?b = "length (boards h)"
  let ?P = "building h gs"
  have empty: "?P (setSquare x ?b i j None)" if "?P x" for i j x
    using that by (intro building_setSquare) simp_all
  have clear: "?P (fold (\<lambda>pos x. setSquare x ?b (Row pos) (Col pos) None) ps x)" if "?P x" for ps x
    using that by (intro fold_invariant [where P = ?P]) (simp_all add: empty)
  have rank: "?P (fold (\<lambda>(j, t) x. place r j t c ?b x) ps x)" if "?P x" for r c ps x
    using that
    by (intro fold_invariant [where P = ?P]) (simp_all add: building_place case_prod_beta)
  have pawns: "?P (fold (\<lambda>i x. place r i Pawn c ?b x) ps x)" if "?P x" for r c ps x
    using that by (intro fold_invariant [where P = ?P]) (simp_all add: building_place)
  show ?thesis
    unfolding setupInitialPosition_def Let_def
    by (intro pawns rank clear assms)
qed

lemma building_NewBoard:
  "fst (NewBoard h) = length (boards h) \<and> building h (games h) (snd (NewBoard h))"
proof -
  let ?h1 = "h\<lparr>boards := boards h @ [\<lparr>squares = (\<lambda>_. None)\<rparr>]\<rparr>"
  have "building h (games h) ?h1"
    by (simp add: building_def boardAbove_def)
  then have "building h (games h) (setupInitialPosition ?h1 (length (boards h)))"
    by (rule building_setupInitialPosition)
  then show ?thesis
    by (simp add: NewBoard_def Let_def)
qed

lemma building_copyPiece:
  assumes "building h gs x" and "Board (gs ! newGame) = length (boards h)"
  shows "building h gs (copyPiece game newGame pos x)"
proof (cases "GetPiece x (Board (games x ! game)) pos")
  case None
  then show ?thesis using assms by (simp add: copyPiece_def)
next
  case (Some piece)
  let ?x1 = "x\<lparr>pieces := pieces x @
       [\<lparr>Type = Type (pieces x ! piece), Color = Color (pieces x ! piece), HasMoved = False\<rparr>]\<rparr>"
  have len: "length (pieces h) \<le> length (pieces x)"
    using assms(1) by (rule building_length)
  have b1: "building h gs ?x1"
    using assms(1) len by (simp add: building_def boardAbove_def)
  have bd: "Board (games ?x1 ! newGame) = length (boards h)"
    using assms by (simp add: building_def)
  have "building h gs (setSquare ?x1 (length (boards h)) i j (Some (length (pieces x))))" for i j
    using b1 len by (intro building_setSquare) simp_all
  then have "building h gs (SetPiece ?x1 (length (boards h)) pos (Some (length (pieces x))))"
    using b1 by (simp add: SetPiece_def)
  then show ?thesis
    using Some bd by (simp add: copyPiece_def Let_def)
qed

lemma extends_refl: "extends h h"
  by (simp add: extends_def)

lemma extends_length:
  assumes "extends h h'"
  shows "length (pieces h) \<le> length (pieces h')" "length (boards h) \<le> length (boards h')"
    "length (games h) \<le> length (games h')"
proof -
  have "length (take (length (pieces h)) (pieces h')) = length (pieces h)"
    "length (take (length (boards h)) (boards h')) = length (boards h)"
    "length (take (length (games h)) (games h')) = length (games h)"
    using assms by (simp_all add: extends_def)
  then show "length (pieces h) \<le> length (pieces h')" "length (boards h) \<le> length (boards h')"
    "length (games h) \<le> length (games h')"
    by simp_all
qed

lemma take_take_le: "n \<le> m \<Longrightarrow> take n (take m xs) = take n xs"
  by (simp add: min_def)

lemma extends_trans:
  assumes "extends h h'" and "extends h' h''"
  shows "extends h h''"
proof -
  note l = extends_length [OF assms(1)]
  have "take (length (pieces h)) (pieces h'') = take (length (pieces h)) (pieces h')"
    using assms(2) take_take_le [OF l(1), of "pieces h''"] by (simp add: extends_def)
  moreover have "take (length (boards h)) (boards h'') = take (length (boards h)) (boards h')"
    using assms(2) take_take_le [OF l(2), of "boards h''"] by (simp add: extends_def)
  moreover have "take (length (games h)) (games h'') = take (length (games h)) (games h')"
    using assms(2) take_take_le [OF l(3), of "games h''"] by (simp add: extends_def)
  ultimately show ?thesis
    using assms(1) by (simp add: extends_def)
qed

lemma extends_unchangedBelow:
  assumes "extends h h'"
    and "unchangedBelow (length (pieces h)) (length (boards h)) (length (games h)) h' h''"
  shows "extends h h''"
  using assms by (simp add: extends_def unchangedBelow_def)

lemma copyGame_spec:
  "fst (copyGame h game) = length (games h)
   \<and> extends h (snd (copyGame h game))
   \<and> Board (games (snd (copyGame h game)) ! length (games h)) = length (boards h)
   \<and> boardAbove (length (pieces h)) (snd (copyGame h game)) (length (boards h))"
proof -
  define hb where "hb = snd (NewBoard h)"
  define G where "G = \<lparr>Board = length (boards h), CurrentPlayer = CurrentPlayer (games h ! game),
                   State = State (games h ! game),
                   MoveHistory = MoveHistory (games h ! game)\<rparr>"
  define gs where "gs = games h @ [G]"
  have nb: "fst (NewBoard h) = length (boards h)" and bb: "building h (games h) hb"
    using building_NewBoard [of h] by (simp_all add: hb_def)
  have gh: "games hb = games h"
    using bb by (simp add: building_def)
  have b2: "building h gs (hb\<lparr>games := gs\<rparr>)"
    using bb by (simp add: building_def boardAbove_def)
  have bg: "Board (gs ! length (games h)) = length (boards h)"
    by (simp add: gs_def G_def)
  have fin: "building h gs (fold (copyPiece game (length (games h))) allPositions (hb\<lparr>games := gs\<rparr>))"
    using b2 by (intro fold_invariant [where P = "building h gs"]) (simp_all add: building_copyPiece bg)
  have cg: "copyGame h game =
      (length (games h), fold (copyPiece game (length (games h))) allPositions (hb\<lparr>games := gs\<rparr>))"
    using nb gh by (simp add: copyGame_def Let_def case_prod_beta hb_def gs_def G_def)
  have "take (length (games h)) gs = games h"
    by (simp add: gs_def)
  then show ?thesis
    using fin bg unfolding cg by (simp add: building_def extends_def)
qed

lemma copy_and_move_extends:
  "extends h (snd (MakeMove (snd (copyGame h game)) (fst (copyGame h game)) from to))"
proof -
  note c = copyGame_spec [of h game]
  let ?h1 = "snd (copyGame h game)"
  have u: "unchangedBelow (length (pieces h)) (length (boards h)) (length (games h)) ?h1
          (snd (MakeMove ?h1 (length (games h)) from to))"
    using c by (intro MakeMove_unchangedBelow) simp_all
  have e: "extends h ?h1" and f: "fst (copyGame h game) = length (games h)"
    using c by simp_all
  show ?thesis
    unfolding f by (rule extends_unchangedBelow [OF e u])
qed

section \<open>The search writes only to its copies\<close>

lemma searchMoves_extends:
  assumes child: "\<And>h ai gameCopy alpha beta. extends h (fst (snd (child h ai gameCopy alpha beta)))"
  shows "extends h (fst (searchMoves child game depth isMaximizing ply moves h ai
                           bestScore alpha beta))"
proof (induction moves arbitrary: h ai bestScore alpha beta)
  case Nil
  then show ?case by (simp add: extends_refl)
next
  case (Cons move rest)
  let ?gameCopy = "fst (copyGame h game)"
  let ?mk = "MakeMove (snd (copyGame h game)) ?gameCopy (String (From move)) (String (To move))"
  let ?r = "child (snd ?mk) ai ?gameCopy alpha beta"
  let ?best = "if isMaximizing then (if flt bestScore (fst ?r) then fst ?r else bestScore)
               else (if flt (fst ?r) bestScore then fst ?r else bestScore)"
  let ?alpha = "if isMaximizing then fmax alpha (fst ?r) else alpha"
  let ?beta = "if isMaximizing then beta else fmin beta (fst ?r)"
  have e2: "extends h (snd ?mk)"
    by (rule copy_and_move_extends)
  have e3: "extends h (fst (snd ?r))"
    by (rule extends_trans [OF e2 child])
  show ?case
  proof (cases "fst ?mk = None")
    case False
    then have "searchMoves child game depth isMaximizing ply (move # rest) h ai bestScore
                 alpha beta
               = searchMoves child game depth isMaximizing ply rest (snd ?mk) ai bestScore
                   alpha beta"
      by (simp add: case_prod_beta Let_def)
    then show ?thesis
      by (simp only: extends_trans [OF e2 Cons.IH])
  next
    case True
    show ?thesis
    proof (cases "fle ?beta ?alpha")
      case cut: True
      with True have "fst (searchMoves child game depth isMaximizing ply (move # rest) h ai
                 bestScore alpha beta) = fst (snd ?r)"
        by (simp add: case_prod_beta Let_def)
      then show ?thesis
        by (simp only: e3)
    next
      case go: False
      with True have "searchMoves child game depth isMaximizing ply (move # rest) h ai
                 bestScore alpha beta
               = searchMoves child game depth isMaximizing ply rest (fst (snd ?r))
                   (snd (snd ?r)) ?best ?alpha ?beta"
        by (simp add: case_prod_beta Let_def)
      then show ?thesis
        by (simp only: extends_trans [OF e3 Cons.IH])
    qed
  qed
qed

lemma minimax_extends:
  "extends h (fst (snd (minimax heuristic sortSlice h ai game depth isMaximizing alpha beta ply)))"
proof (induction depth arbitrary: h ai game isMaximizing alpha beta ply)
  case 0
  show ?case
    by (subst minimax.simps)
      (simp add: Let_def extends_refl split: sum.splits prod.splits)
next
  case (Suc depth)
  have s: "extends h (fst (searchMoves
             (\<lambda>h ai gameCopy alpha beta.
                minimax heuristic sortSlice h ai gameCopy depth m alpha beta p)
             game d mx ply moves h ai bestScore alpha beta))"
    for m p d mx game ply moves h ai bestScore alpha beta
    by (rule searchMoves_extends) (rule Suc.IH)
  show ?case
    by (subst minimax.simps)
      (auto simp: Let_def extends_refl case_prod_beta s split: sum.splits)
qed

lemma rootMoves_extends:
  "extends h (fst (rootMoves heuristic sortSlice game currentDepth moves h ai
                     tempBestMove tempBestScore))"
proof (induction moves arbitrary: h ai tempBestMove tempBestScore)
  case Nil
  then show ?case by (simp add: extends_refl)
next
  case (Cons move rest)
  let ?gameCopy = "fst (copyGame h game)"
  let ?mk = "MakeMove (snd (copyGame h game)) ?gameCopy (String (From move)) (String (To move))"
  let ?r = "minimax heuristic sortSlice (snd ?mk) ai ?gameCopy (nat (currentDepth - 1))
              False NegInf PosInf 1"
  have e2: "extends h (snd ?mk)"
    by (rule copy_and_move_extends)
  have e3: "extends h (fst (snd ?r))"
    by (rule extends_trans [OF e2 minimax_extends])
  show ?case
  proof (cases "fst ?mk = None")
    case False
    then have "rootMoves heuristic sortSlice game currentDepth (move # rest) h ai
                 tempBestMove tempBestScore
               = rootMoves heuristic sortSlice game currentDepth rest (snd ?mk) ai
                   tempBestMove tempBestScore"
      by (simp add: case_prod_beta Let_def)
    then show ?thesis
      by (simp only: extends_trans [OF e2 Cons.IH])
  next
    case True
    show ?thesis
    proof (cases "flt tempBestScore (fst ?r)")
      case better: True
      with True have "rootMoves heuristic sortSlice game currentDepth (move # rest) h ai
                 tempBestMove tempBestScore
               = rootMoves heuristic sortSlice game currentDepth rest (fst (snd ?r))
                   (snd (snd ?r)) move (fst ?r)"
        by (simp add: case_prod_beta Let_def)
      then show ?thesis
        by (simp only: extends_trans [OF e3 Cons.IH])
    next
      case worse: False
      with True have "rootMoves heuristic sortSlice game currentDepth (move # rest) h ai
                 tempBestMove tempBestScore
               = rootMoves heuristic sortSlice game currentDepth rest (fst (snd ?r))
                   (snd (snd ?r)) tempBestMove tempBestScore"
        by (simp add: case_prod_beta Let_def)
      then show ?thesis
        by (simp only: extends_trans [OF e3 Cons.IH])
    qed
  qed
qed

lemma deepen_extends:
  "extends h (fst (deepen heuristic sortSlice game allMoves depths h ai bestMove bestScore))"
proof (induction depths arbitrary: h ai bestMove bestScore)
  case Nil
  then show ?case by (simp add: extends_refl)
next
  case (Cons currentDepth depths)
  let ?r = "rootMoves heuristic sortSlice game currentDepth
              (orderMoves sortSlice h ai allMoves game 0) h ai zeroMove NegInf"
  have e1: "extends h (fst ?r)"
    by (rule rootMoves_extends)
  show ?case
  proof (cases "flt bestScore (snd (snd (snd ?r)))")
    case True
    then have "deepen heuristic sortSlice game allMoves (currentDepth # depths) h ai
                 bestMove bestScore
               = deepen heuristic sortSlice game allMoves depths (fst ?r) (fst (snd ?r))
                   (fst (snd (snd ?r))) (snd (snd (snd ?r)))"
      by (simp add: case_prod_beta Let_def)
    then show ?thesis
      by (simp only: extends_trans [OF e1 Cons.IH])
  next
    case False
    then have "deepen heuristic sortSlice game allMoves (currentDepth # depths) h ai
                 bestMove bestScore
               = deepen heuristic sortSlice game allMoves depths (fst ?r) (fst (snd ?r))
                   bestMove bestScore"
      by (simp add: case_prod_beta Let_def)
    then show ?thesis
      by (simp only: extends_trans [OF e1 Cons.IH])
  qed
qed

lemma GetBestMove_extends:
  "extends h (fst (snd (GetBestMove heuristic sortSlice h ai game)))"
  by (simp add: GetBestMove_def Let_def case_prod_beta extends_refl deepen_extends)

section \<open>The caller's game after \<^verbatim>\<open>GetBestMove\<close>\<close>

lemma extends_gameView:
  assumes e: "extends h h'" and s: "inStore h game"
  shows "gameView h' game = gameView h game"
proof -
  let ?b = "Board (games h ! game)"
  have "take (length (games h)) (games h') ! game = games h' ! game"
    using s by (simp add: inStore_def)
  then have g: "games h' ! game = games h ! game"
    using e by (simp add: extends_def)
  have "take (length (boards h)) (boards h') ! ?b = boards h' ! ?b"
    using s by (simp add: inStore_def)
  then have b: "boards h' ! ?b = boards h ! ?b"
    using e by (simp add: extends_def)
  have gp: "GetPiece h' ?b pos = GetPiece h ?b pos" for pos
    by (simp add: GetPiece_def b)
  have "pieceAt h' ?b pos = pieceAt h ?b pos" if "pos \<in> set allPositions" for pos
  proof (cases "GetPiece h ?b pos")
    case None
    then show ?thesis by (simp add: pieceAt_def gp)
  next
    case (Some piece)
    then have "piece < length (pieces h)"
      using s that by (auto simp: inStore_def list_all_iff)
    then have "take (length (pieces h)) (pieces h') ! piece = pieces h' ! piece"
      by simp
    then have "pieces h' ! piece = pieces h ! piece"
      using e by (simp add: extends_def)
    then show ?thesis
      using Some by (simp add: pieceAt_def gp)
  qed
  then have "map (pieceAt h' ?b) allPositions = map (pieceAt h ?b) allPositions"
    by (intro map_cong) simp_all
  then show ?thesis
    by (simp add: gameView_def g)
qed

text \<open>
  C4. \<^verbatim>\<open>GetBestMove\<close> leaves every object that was in the store as it was: it writes
  only to the games, boards and pieces that \<^verbatim>\<open>copyGame\<close> creates. For a caller's game
  in the store, the side to move, the state, the move history and the piece on every
  square are the same after the call as before, for every evaluation function and every
  sorting of the moves.
\<close>

theorem GetBestMove_preserves_game:
  assumes "inStore h game"
  shows "extends h (fst (snd (GetBestMove heuristic sortSlice h ai game)))
         \<and> gameView (fst (snd (GetBestMove heuristic sortSlice h ai game))) game
             = gameView h game"
  using GetBestMove_extends [of h heuristic sortSlice ai game] assms
  by (simp add: extends_gameView)

theorem GetBestMove_preserves_game_witness:
  "inStore initialHeap 0
   \<and> gameView (fst (snd (GetBestMove flatHeuristic keepOrder initialHeap (NewAI White 2) 0))) 0
       = gameView initialHeap 0"
proof -
  have a: "inStore initialHeap 0" by code_simp
  from GetBestMove_preserves_game [OF a, of flatHeuristic keepOrder "NewAI White 2"] a
  show ?thesis by blast
qed


end
